theory Spec2Isabelle
  imports Main "HOL-Library.Sublist"
begin

section \<open>JavaScript strings\<close>

text \<open>
  A JavaScript string is a sequence of UTF-16 code units; \<open>includes\<close>, \<open>trim\<close>,
  \<open>===\<close> and the regular expressions of \<open>bin/cli.js\<close> (none has the \<open>u\<close> flag) all work
  on code units. A code unit is a natural number here, and \<open>js\<close> turns an ASCII
  literal into its code units. A file is identified with the string that
  \<open>readFileSync(_, 'utf8')\<close> returns for it (files are taken to be valid UTF-8), and a
  path is the list of its components below the root.
\<close>

type_synonym jsstring = "nat list"

type_synonym path = "jsstring list"

abbreviation js :: "string \<Rightarrow> jsstring" where
  "js s \<equiv> map of_char s"

text \<open>ECMAScript's LineTerminator: LF, CR, U+2028, U+2029.\<close>

definition is_line_terminator :: "nat \<Rightarrow> bool" where
  "is_line_terminator c = (c = 10 \<or> c = 13 \<or> c = 8232 \<or> c = 8233)"

text \<open>
  ECMAScript's WhiteSpace and LineTerminator together: what \<open>trim\<close> strips and what
  \<open>\s\<close> matches. TAB, VT, FF, U+FEFF and the space separators U+0020, U+00A0, U+1680,
  U+2000 to U+200A, U+202F, U+205F, U+3000.
\<close>

definition is_white_space :: "nat \<Rightarrow> bool" where
  "is_white_space c =
     (c = 9 \<or> c = 11 \<or> c = 12 \<or> c = 32 \<or> c = 160 \<or> c = 5760 \<or> (8192 \<le> c \<and> c \<le> 8202)
      \<or> c = 8239 \<or> c = 8287 \<or> c = 12288 \<or> c = 65279 \<or> is_line_terminator c)"

definition is_digit :: "nat \<Rightarrow> bool" where
  "is_digit c = (48 \<le> c \<and> c \<le> 57)"

definition trimStart :: "jsstring \<Rightarrow> jsstring" where
  "trimStart s = dropWhile is_white_space s"

definition trimEnd :: "jsstring \<Rightarrow> jsstring" where
  "trimEnd s = rev (dropWhile is_white_space (rev s))"

definition trim :: "jsstring \<Rightarrow> jsstring" where
  "trim s = trimEnd (trimStart s)"

text \<open>\<open>s.includes(m)\<close>: \<open>m\<close> starts at some position of \<open>s\<close>.\<close>

fun str_includes :: "jsstring \<Rightarrow> jsstring \<Rightarrow> bool" where
  "str_includes [] m = (m = [])"
| "str_includes (c # cs) m = (prefix m (c # cs) \<or> str_includes cs m)"

definition endsWith :: "jsstring \<Rightarrow> jsstring \<Rightarrow> bool" where
  "endsWith s suf = (length suf \<le> length s \<and> drop (length s - length suf) s = suf)"

text \<open>\<open>s.replace(pat, rep)\<close> with a string pattern: only the first occurrence is replaced.\<close>

fun replace_first :: "jsstring \<Rightarrow> jsstring \<Rightarrow> jsstring \<Rightarrow> jsstring" where
  "replace_first [] pat rep = (if pat = [] then rep else [])"
| "replace_first (c # cs) pat rep =
     (if prefix pat (c # cs) then rep @ drop (length pat) (c # cs)
      else c # replace_first cs pat rep)"

section \<open>JavaScript numbers\<close>

text \<open>The decimal digits of a natural number.\<close>

function str_of_nat :: "nat \<Rightarrow> jsstring" where
  "str_of_nat n = (if n < 10 then [48 + n] else str_of_nat (n div 10) @ [48 + n mod 10])"
  by pat_completeness auto
termination
  by (relation "measure id") auto

declare str_of_nat.simps [simp del]

text \<open>
  A JavaScript number is an IEEE 754 double. The numbers of \<open>bin/cli.js\<close> are the entry
  counts of \<open>status\<close>: \<open>0\<close>, \<open>parseInt\<close> of a string of digits, their running sum, and the
  length of an array. All of these are natural numbers or \<open>+Infinity\<close>, so a number is
  modelled as \<open>Some n\<close>, for a natural number \<open>n\<close> that a double can hold, or \<open>None\<close> for
  \<open>+Infinity\<close>.

  \<open>bits n\<close> is the length of \<open>n\<close> in binary. \<open>round_nat n\<close> is \<open>n\<close> rounded to 53
  significant bits, to the nearest and, halfway, to the even neighbour; the result
  overflows to \<open>+Infinity\<close> when it needs more than 1024 bits.
\<close>

fun bits :: "nat \<Rightarrow> nat" where
  "bits n = (if n = 0 then 0 else Suc (bits (n div 2)))"

declare bits.simps [simp del]

definition round_to :: "nat \<Rightarrow> nat \<Rightarrow> nat" where
  "round_to e n =
     (if 2 ^ e < 2 * (n mod 2 ^ e) \<or> (2 * (n mod 2 ^ e) = 2 ^ e \<and> odd (n div 2 ^ e))
      then n div 2 ^ e + 1 else n div 2 ^ e) * 2 ^ e"

definition round_nat :: "nat \<Rightarrow> nat" where
  "round_nat n = (if n < 2 ^ 53 then n else round_to (bits n - 53) n)"

definition overflow :: "nat \<Rightarrow> nat option" where
  "overflow r = (if bits r \<le> 1024 then Some r else None)"

definition to_double :: "nat \<Rightarrow> nat option" where
  "to_double n = overflow (round_nat n)"

typedef jsnum = "insert None (range to_double)"
  by blast

setup_lifting type_definition_jsnum

text \<open>The number for a natural number; \<open>0\<close>; and \<open>+\<close>, which rounds the exact sum.\<close>

lift_definition num :: "nat \<Rightarrow> jsnum" is to_double
  by simp

instantiation jsnum :: "{zero, plus}"
begin

lift_definition zero_jsnum :: jsnum is "to_double 0"
  by simp

lift_definition plus_jsnum :: "jsnum \<Rightarrow> jsnum \<Rightarrow> jsnum" is
  "\<lambda>a b. case a of None \<Rightarrow> None | Some x \<Rightarrow> (case b of None \<Rightarrow> None | Some y \<Rightarrow> to_double (x + y))"
  by (auto split: option.splits)

instance ..

end

text \<open>
  \<open>parseInt\<close> of a string of decimal digits (the pattern \<open>(\d+)\<close> passes nothing else):
  the number nearest to the integer the digits spell. ECMAScript lets an implementation
  replace the digits after the twentieth significant one by zeros; the model rounds the
  exact value.
\<close>

definition digits_value :: "jsstring \<Rightarrow> nat" where
  "digits_value ds = foldl (\<lambda>a d. 10 * a + (d - 48)) 0 ds"

definition parseInt :: "jsstring \<Rightarrow> jsnum" where
  "parseInt ds = num (digits_value ds)"

text \<open>
  A number in a template literal (\<open>Number::toString\<close>): the digits \<open>s\<close> and the power \<open>p\<close>
  of ten with the fewest digits such that \<open>s * 10 ^ p\<close> is read back as the same number
  and, among these, the nearest to it. For \<open>k\<close> digits the two multiples of \<open>10 ^ p\<close>
  next to \<open>v\<close> are tried, for the two powers that give \<open>k\<close> digits. With \<open>n\<close> the
  number of digits before the decimal point, the digits are printed in full up to
  \<open>n = 21\<close> and with an exponent from there on.
\<close>

definition hit :: "nat \<Rightarrow> nat \<Rightarrow> nat \<Rightarrow> nat \<Rightarrow> bool" where
  "hit v k p s =
     (if 10 ^ (k - 1) \<le> s \<and> s < 10 ^ k then to_double (s * 10 ^ p) = Some v else False)"

definition hits_at :: "nat \<Rightarrow> nat \<Rightarrow> nat \<Rightarrow> (nat \<times> nat) list" where
  "hits_at v k p = map (\<lambda>s. (s, p)) (filter (hit v k p) [v div 10 ^ p, v div 10 ^ p + 1])"

definition candidates :: "nat \<Rightarrow> nat \<Rightarrow> nat \<Rightarrow> (nat \<times> nat) list" where
  "candidates v n k = hits_at v k (n - k) @ hits_at v k (n + 1 - k)"

definition distance :: "nat \<Rightarrow> nat \<times> nat \<Rightarrow> nat" where
  "distance v c =
     (if v \<le> fst c * 10 ^ snd c then fst c * 10 ^ snd c - v else v - fst c * 10 ^ snd c)"

fun closest :: "nat \<Rightarrow> nat \<times> nat \<Rightarrow> (nat \<times> nat) list \<Rightarrow> nat \<times> nat" where
  "closest v c [] = c"
| "closest v c (d # ds) =
     closest v
       (if distance v d < distance v c \<or> (distance v d = distance v c \<and> even (fst d) \<and> odd (fst c))
        then d else c) ds"

fun shortest :: "nat \<Rightarrow> nat \<Rightarrow> nat \<Rightarrow> nat \<Rightarrow> nat \<times> nat" where
  "shortest v n k 0 = (v, 0)"
| "shortest v n k (Suc fuel) =
     (case candidates v n k of [] \<Rightarrow> shortest v n (Suc k) fuel | c # cs \<Rightarrow> closest v c cs)"

definition shortest_digits :: "nat \<Rightarrow> nat \<Rightarrow> nat \<times> nat" where
  "shortest_digits v n = shortest v n 1 n"

definition render :: "jsstring \<Rightarrow> nat \<Rightarrow> jsstring" where
  "render ds p =
     (if length ds + p \<le> 21 then ds @ replicate p 48
      else (if length ds = 1 then ds else hd ds # 46 # tl ds) @ js ''e+''
           @ str_of_nat (length ds + p - 1))"

definition render_pair :: "nat \<times> nat \<Rightarrow> jsstring" where
  "render_pair c = render (str_of_nat (fst c)) (snd c)"

definition digits_of :: "nat \<Rightarrow> jsstring" where
  "digits_of v =
     (if v = 0 then js ''0'' else render_pair (shortest_digits v (length (str_of_nat v))))"

lift_definition number_to_string :: "jsnum \<Rightarrow> jsstring" is
  "\<lambda>x. case x of None \<Rightarrow> js ''Infinity'' | Some v \<Rightarrow> digits_of v" .

section \<open>Paths\<close>

text \<open>A path as \<open>process.cwd()\<close> and \<open>path.join\<close> print it (POSIX separators).\<close>

definition path_str :: "path \<Rightarrow> jsstring" where
  "path_str p = (if p = [] then js ''/'' else concat (map (\<lambda>c. js ''/'' @ c) p))"

section \<open>The filesystem and the calls of Node's \<open>fs\<close> module\<close>

datatype node = File jsstring | Dir

type_synonym filesystem = "path \<Rightarrow> node option"

text \<open>
  Every entry but the root lies in a directory. The states a process can meet satisfy
  this; the operations below keep it.
\<close>

definition wf_fs :: "filesystem \<Rightarrow> bool" where
  "wf_fs fs = (\<forall>p c. fs (p @ [c]) \<noteq> None \<longrightarrow> fs p = Some Dir)"

datatype exn = ENOENT | ENOTDIR | EISDIR | EEXIST | TypeError

text \<open>
  How a run ends: the function returns, \<open>process.exit(n)\<close> is called, or an exception
  nobody catches leaves the program.
\<close>

datatype outcome = Completed | Exit nat | Uncaught exn

datatype stream = Stdout | Stderr

type_synonym printed = "(stream \<times> jsstring) list"

definition is_file :: "node option \<Rightarrow> bool" where
  "is_file n = (case n of Some (File c) \<Rightarrow> True | Some Dir \<Rightarrow> False | None \<Rightarrow> False)"

definition existsSync :: "filesystem \<Rightarrow> path \<Rightarrow> bool" where
  "existsSync fs p = (fs p \<noteq> None)"

definition readFileSync :: "filesystem \<Rightarrow> path \<Rightarrow> exn + jsstring" where
  "readFileSync fs p =
     (case fs p of
        None \<Rightarrow> Inl ENOENT
      | Some Dir \<Rightarrow> Inl EISDIR
      | Some (File c) \<Rightarrow> Inr c)"

definition writeFileSync :: "filesystem \<Rightarrow> path \<Rightarrow> jsstring \<Rightarrow> exn + filesystem" where
  "writeFileSync fs p c =
     (case fs p of
        Some Dir \<Rightarrow> Inl EISDIR
      | Some (File old) \<Rightarrow> Inr (fs(p \<mapsto> File c))
      | None \<Rightarrow>
          (case fs (butlast p) of
             Some Dir \<Rightarrow> Inr (fs(p \<mapsto> File c))
           | Some (File x) \<Rightarrow> Inl ENOTDIR
           | None \<Rightarrow> Inl ENOENT))"

text \<open>
  \<open>mkdirSync(p, {recursive: true})\<close>: every missing directory on the way to \<open>p\<close> is
  created; a file on the way makes the call throw, and nothing is created then.
\<close>

definition mkdirSync_recursive :: "filesystem \<Rightarrow> path \<Rightarrow> exn + filesystem" where
  "mkdirSync_recursive fs p =
     (if is_file (fs p) then Inl EEXIST
      else if list_ex (\<lambda>q. is_file (fs q)) (prefixes p) then Inl ENOTDIR
      else Inr (\<lambda>q. if prefix q p then Some Dir else fs q))"

section \<open>\<open>bin/cli.js\<close>\<close>

definition PRIORS_MARKER :: jsstring where
  "PRIORS_MARKER = js ''## Priors''"

definition VERSION :: jsstring where
  "VERSION = js ''0.1.2''"

text \<open>
  What a run reads from its process: \<open>__dirname\<close> (the directory of \<open>cli.js\<close>),
  \<open>process.cwd()\<close>, the value of \<open>process.env.HOME || process.env.USERPROFILE\<close> (\<open>None\<close>
  when neither is set), and what \<open>readdirSync\<close> returns for the priors directory, in
  the order the directory lists its entries.
\<close>

record env =
  dirname :: path
  cwd :: path
  home :: "path option"
  listing :: "jsstring list"

definition PKG_ROOT :: "env \<Rightarrow> path" where
  "PKG_ROOT e = butlast (dirname e)"

definition SKILL_SRC :: "env \<Rightarrow> path" where
  "SKILL_SRC e = butlast (PKG_ROOT e) @ [js ''skill'', js ''SKILL.md'']"

definition BOOTSTRAP_SRC :: "env \<Rightarrow> path" where
  "BOOTSTRAP_SRC e = butlast (PKG_ROOT e) @ [js ''bootstrap'', js ''CLAUDE.md.snippet'']"

definition SKILL_SRC_ALT :: "env \<Rightarrow> path" where
  "SKILL_SRC_ALT e = PKG_ROOT e @ [js ''skill'', js ''SKILL.md'']"

definition BOOTSTRAP_SRC_ALT :: "env \<Rightarrow> path" where
  "BOOTSTRAP_SRC_ALT e = PKG_ROOT e @ [js ''bootstrap'', js ''CLAUDE.md.snippet'']"

definition resolveAsset :: "filesystem \<Rightarrow> path \<Rightarrow> path \<Rightarrow> path option" where
  "resolveAsset fs primary fallback =
     (if existsSync fs primary then Some primary
      else if existsSync fs fallback then Some fallback
      else None)"

text \<open>
  \<open>readAsset\<close> returns the asset's text, or says how the process ended: \<open>process.exit(1)\<close>
  after the diagnostic on stderr, or the exception of \<open>readFileSync\<close>.
\<close>

definition readAsset :: "filesystem \<Rightarrow> path \<Rightarrow> path \<Rightarrow> (outcome \<times> printed) + jsstring" where
  "readAsset fs primary fallback =
     (case resolveAsset fs primary fallback of
        None \<Rightarrow>
          Inl (Exit 1,
               [(Stderr, js ''Error: Could not find asset. Looked in:\<newline>  '' @ path_str primary
                         @ js ''\<newline>  '' @ path_str fallback)])
      | Some resolved \<Rightarrow>
          (case readFileSync fs resolved of
             Inl e \<Rightarrow> Inl (Uncaught e, [])
           | Inr content \<Rightarrow> Inr content))"

text \<open>
  Statements in sequence: the next one runs on the filesystem the previous one left,
  unless the previous one ended the process; what was printed is kept.
\<close>

definition and_then ::
  "outcome \<times> filesystem \<times> printed \<Rightarrow> (filesystem \<Rightarrow> outcome \<times> filesystem \<times> printed)
   \<Rightarrow> outcome \<times> filesystem \<times> printed" where
  "and_then x k =
     (case x of (r, fs1, out1) \<Rightarrow>
        if r = Completed then (case k fs1 of (r2, fs2, out2) \<Rightarrow> (r2, fs2, out1 @ out2))
        else (r, fs1, out1))"

text \<open>Step 1 of \<open>init\<close>: create \<open>.claude/priors/\<close>.\<close>

definition init_priors_dir :: "path \<Rightarrow> filesystem \<Rightarrow> outcome \<times> filesystem \<times> printed" where
  "init_priors_dir wd fs =
     (let priorsDir = wd @ [js ''.claude'', js ''priors''] in
      if \<not> existsSync fs priorsDir then
        (case mkdirSync_recursive fs priorsDir of
           Inl e \<Rightarrow> (Uncaught e, fs, [])
         | Inr fs1 \<Rightarrow>
             (case writeFileSync fs1 (priorsDir @ [js ''.gitkeep'']) [] of
                Inl e \<Rightarrow> (Uncaught e, fs1, [])
              | Inr fs2 \<Rightarrow> (Completed, fs2, [(Stdout, js ''  Created .claude/priors/'')])))
      else (Completed, fs, [(Stdout, js ''  .claude/priors/ already exists'')]))"

text \<open>Step 2 of \<open>init\<close>: copy \<open>SKILL.md\<close>.\<close>

definition skillDir_of :: "env \<Rightarrow> bool \<Rightarrow> path option" where
  "skillDir_of e global =
     (case (if global then home e else Some (cwd e)) of
        None \<Rightarrow> None
      | Some base \<Rightarrow> Some (base @ [js ''.claude'', js ''skills'', js ''knowledge-extraction'']))"

definition init_skill :: "env \<Rightarrow> bool \<Rightarrow> filesystem \<Rightarrow> outcome \<times> filesystem \<times> printed" where
  "init_skill e global fs =
     (case readAsset fs (SKILL_SRC e) (SKILL_SRC_ALT e) of
        Inl (r, out) \<Rightarrow> (r, fs, out)
      | Inr skillContent \<Rightarrow>
          (case skillDir_of e global of
             None \<Rightarrow> (Uncaught TypeError, fs, [])
           | Some skillDir \<Rightarrow>
               (case (if \<not> existsSync fs skillDir then mkdirSync_recursive fs skillDir
                      else Inr fs) of
                  Inl ex \<Rightarrow> (Uncaught ex, fs, [])
                | Inr fs1 \<Rightarrow>
                    (let skillDest = skillDir @ [js ''SKILL.md''] in
                     if \<not> existsSync fs1 skillDest then
                       (case writeFileSync fs1 skillDest skillContent of
                          Inl ex \<Rightarrow> (Uncaught ex, fs1, [])
                        | Inr fs2 \<Rightarrow>
                            (Completed, fs2,
                             [(Stdout, js ''  Created ''
                                 @ (if global then js ''~/.claude/skills'' else js ''.claude/skills'')
                                 @ js ''/knowledge-extraction/SKILL.md'')]))
                     else
                       (case readFileSync fs1 skillDest of
                          Inl ex \<Rightarrow> (Uncaught ex, fs1, [])
                        | Inr existing \<Rightarrow>
                            if existing = skillContent then
                              (Completed, fs1, [(Stdout, js ''  SKILL.md already up to date'')])
                            else
                              (case writeFileSync fs1 skillDest skillContent of
                                 Inl ex \<Rightarrow> (Uncaught ex, fs1, [])
                               | Inr fs2 \<Rightarrow>
                                   (Completed, fs2,
                                    [(Stdout, js ''  Updated SKILL.md to v'' @ VERSION)])))))))"

text \<open>
  Step 3 of \<open>init\<close>: the bootstrap in \<open>CLAUDE.md\<close> (or \<open>AGENTS.md\<close>). The loop over the
  two candidates stops at the first that exists.
\<close>

definition instructionFile_of :: "path \<Rightarrow> filesystem \<Rightarrow> jsstring" where
  "instructionFile_of wd fs =
     (if existsSync fs (wd @ [js ''CLAUDE.md'']) then js ''CLAUDE.md''
      else if existsSync fs (wd @ [js ''AGENTS.md'']) then js ''AGENTS.md''
      else js ''CLAUDE.md'')"

definition init_bootstrap :: "env \<Rightarrow> filesystem \<Rightarrow> outcome \<times> filesystem \<times> printed" where
  "init_bootstrap e fs =
     (case readAsset fs (BOOTSTRAP_SRC e) (BOOTSTRAP_SRC_ALT e) of
        Inl (r, out) \<Rightarrow> (r, fs, out)
      | Inr bootstrapContent \<Rightarrow>
          (let instructionFile = instructionFile_of (cwd e) fs;
               instructionPath = cwd e @ [instructionFile] in
           if existsSync fs instructionPath then
             (case readFileSync fs instructionPath of
                Inl ex \<Rightarrow> (Uncaught ex, fs, [])
              | Inr existing \<Rightarrow>
                  if str_includes existing PRIORS_MARKER then
                    (Completed, fs,
                     [(Stdout, js ''  '' @ instructionFile @ js '' already has priors bootstrap'')])
                  else
                    (case writeFileSync fs instructionPath
                            (trimEnd existing @ js ''\<newline>\<newline>'' @ trim bootstrapContent
                             @ js ''\<newline>'') of
                       Inl ex \<Rightarrow> (Uncaught ex, fs, [])
                     | Inr fs1 \<Rightarrow>
                         (Completed, fs1,
                          [(Stdout, js ''  Appended priors bootstrap to '' @ instructionFile)])))
           else
             (case writeFileSync fs instructionPath (trim bootstrapContent @ js ''\<newline>'') of
                Inl ex \<Rightarrow> (Uncaught ex, fs, [])
              | Inr fs1 \<Rightarrow>
                  (Completed, fs1,
                   [(Stdout, js ''  Created '' @ instructionFile @ js '' with priors bootstrap'')]))))"

definition init :: "env \<Rightarrow> jsstring list \<Rightarrow> filesystem \<Rightarrow> outcome \<times> filesystem \<times> printed" where
  "init e args fs =
     (let global = (js ''--global'' \<in> set args) in
      and_then
        (Completed, fs,
         [(Stdout, js ''\<newline>claude-priors v'' @ VERSION),
          (Stdout, js ''Initializing in: '' @ path_str (cwd e) @ js ''\<newline>'')])
        (\<lambda>fs0. and_then (init_priors_dir (cwd e) fs0)
        (\<lambda>fs1. and_then (init_skill e global fs1)
        (\<lambda>fs2. and_then (init_bootstrap e fs2)
        (\<lambda>fs3. (Completed, fs3,
                [(Stdout,
                  js ''\<newline>Done! Your agent will now learn from every conversation.\<newline>'')]))))))"

text \<open>The regular expressions of \<open>status\<close>.\<close>

fun lazy_until :: "jsstring \<Rightarrow> jsstring \<Rightarrow> jsstring option" where
  "lazy_until lit [] = (if lit = [] then Some [] else None)"
| "lazy_until lit (c # cs) =
     (if prefix lit (c # cs) then Some [] else map_option ((#) c) (lazy_until lit cs))"

definition match_frontmatter :: "jsstring \<Rightarrow> jsstring option" where
  "match_frontmatter content =
     (if prefix (js ''---\<newline>'') content then lazy_until (js ''\<newline>---'') (drop 4 content)
      else None)"

fun regex_search :: "jsstring \<Rightarrow> (jsstring \<Rightarrow> 'a option) \<Rightarrow> jsstring \<Rightarrow> 'a option" where
  "regex_search lit k [] = (if lit = [] then k [] else None)"
| "regex_search lit k (c # cs) =
     (case (if prefix lit (c # cs) then k (drop (length lit) (c # cs)) else None) of
        Some r \<Rightarrow> Some r
      | None \<Rightarrow> regex_search lit k cs)"

fun match_ws_star :: "(jsstring \<Rightarrow> 'a option) \<Rightarrow> jsstring \<Rightarrow> 'a option" where
  "match_ws_star k [] = k []"
| "match_ws_star k (c # cs) =
     (if is_white_space c then
        (case match_ws_star k cs of Some r \<Rightarrow> Some r | None \<Rightarrow> k (c # cs))
      else k (c # cs))"

definition match_dot_plus :: "jsstring \<Rightarrow> jsstring option" where
  "match_dot_plus s =
     (let m = takeWhile (\<lambda>c. \<not> is_line_terminator c) s in if m = [] then None else Some m)"

definition match_digits :: "jsstring \<Rightarrow> jsstring option" where
  "match_digits s = (let m = takeWhile is_digit s in if m = [] then None else Some m)"

definition match_text_field :: "jsstring \<Rightarrow> jsstring \<Rightarrow> jsstring option" where
  "match_text_field key fm = regex_search key (match_ws_star match_dot_plus) fm"

definition match_entries :: "jsstring \<Rightarrow> jsstring option" where
  "match_entries fm = regex_search (js ''entries:'') (match_ws_star match_digits) fm"

record prior_info =
  topic :: jsstring
  summary :: jsstring
  entries :: jsnum
  lastUpdated :: jsstring

definition parse_prior :: "jsstring \<Rightarrow> jsstring \<Rightarrow> prior_info" where
  "parse_prior file content =
     (let name = replace_first file (js ''.md'') [] in
      case match_frontmatter content of
        None \<Rightarrow> \<lparr>topic = name, summary = [], entries = 0, lastUpdated = []\<rparr>
      | Some fm \<Rightarrow>
          \<lparr>topic = (case match_text_field (js ''topic:'') fm of Some t \<Rightarrow> trim t | None \<Rightarrow> name),
           summary = (case match_text_field (js ''summary:'') fm of Some s \<Rightarrow> trim s | None \<Rightarrow> []),
           entries = (case match_entries fm of Some ds \<Rightarrow> parseInt ds | None \<Rightarrow> 0),
           lastUpdated =
             (case match_text_field (js ''last_updated:'') fm of Some d \<Rightarrow> trim d | None \<Rightarrow> [])\<rparr>)"

definition report_lines :: "jsstring \<Rightarrow> prior_info \<Rightarrow> printed" where
  "report_lines file p =
     [(Stdout, js ''  '' @ file),
      (Stdout, js ''    Topic: '' @ topic p @ js '' | Entries: '' @ number_to_string (entries p)
               @ js '' | Updated: '' @ (if lastUpdated p = [] then js ''unknown'' else lastUpdated p))]
     @ (if summary p \<noteq> [] then [(Stdout, js ''    '' @ summary p)] else [])
     @ [(Stdout, [])]"

fun status_loop ::
  "filesystem \<Rightarrow> path \<Rightarrow> jsstring list \<Rightarrow> jsnum \<Rightarrow> outcome \<times> jsnum \<times> printed" where
  "status_loop fs priorsDir [] totalEntries = (Completed, totalEntries, [])"
| "status_loop fs priorsDir (file # files) totalEntries =
     (case readFileSync fs (priorsDir @ [file]) of
        Inl ex \<Rightarrow> (Uncaught ex, totalEntries, [])
      | Inr content \<Rightarrow>
          (let p = parse_prior file content in
           case status_loop fs priorsDir files (totalEntries + entries p) of
             (r, tot, out) \<Rightarrow> (r, tot, report_lines file p @ out)))"

definition status :: "env \<Rightarrow> filesystem \<Rightarrow> outcome \<times> filesystem \<times> printed" where
  "status e fs =
     (let priorsDir = cwd e @ [js ''.claude'', js ''priors''] in
      if \<not> existsSync fs priorsDir then
        (Completed, fs,
         [(Stdout, js ''No priors directory found. Run `claude-priors init` first.'')])
      else if is_file (fs priorsDir) then (Uncaught ENOTDIR, fs, [])
      else
        (let files = filter (\<lambda>f. endsWith f (js ''.md'')) (listing e) in
         if length files = 0 then
           (Completed, fs,
            [(Stdout, js ''Priors directory exists but is empty. The agent will start writing priors as it learns.\<newline>'')])
         else
           (case status_loop fs priorsDir files 0 of
              (r, totalEntries, out) \<Rightarrow>
                (r, fs,
                 [(Stdout, js ''\<newline>Priors: '' @ path_str priorsDir @ js ''\<newline>'')] @ out
                 @ (if r = Completed then
                      [(Stdout, js ''Total: '' @ number_to_string (num (length files)) @ js '' files, ''
                                @ number_to_string totalEntries @ js '' entries\<newline>'')]
                    else [])))))"

definition printUsage :: printed where
  "printUsage =
     [(Stdout,
       js ''\<newline>claude-priors v'' @ VERSION @ js '' '' @ [8212]
       @ js '' Persistent agent memory for AI coding assistants\<newline>\<newline>Usage:\<newline>  claude-priors init [options]    Bootstrap priors in current directory\<newline>  claude-priors status            Show priors stats\<newline>  claude-priors help              Show this help\<newline>\<newline>Options:\<newline>  --global    Install skill to ~/.claude/skills/ instead of repo\<newline>  '')]"

definition main :: "env \<Rightarrow> jsstring list \<Rightarrow> filesystem \<Rightarrow> outcome \<times> filesystem \<times> printed" where
  "main e args fs =
     (case args of
        [] \<Rightarrow> (Completed, fs, printUsage)
      | command # rest \<Rightarrow>
          if command = js ''init'' then init e rest fs
          else if command = js ''status'' then status e fs
          else if command = js ''help'' \<or> command = js ''--help'' \<or> command = js ''-h'' then
            (Completed, fs, printUsage)
          else (Exit 1, fs, [(Stderr, js ''Unknown command: '' @ command)] @ printUsage))"

definition exit_status :: "outcome \<Rightarrow> nat" where
  "exit_status r = (case r of Completed \<Rightarrow> 0 | Exit n \<Rightarrow> n | Uncaught ex \<Rightarrow> 1)"

text \<open>The text of a regular file (empty for anything else).\<close>

definition file_text :: "filesystem \<Rightarrow> path \<Rightarrow> jsstring" where
  "file_text fs p = (case fs p of Some (File c) \<Rightarrow> c | Some Dir \<Rightarrow> [] | None \<Rightarrow> [])"

section \<open>\<open>install.sh\<close>\<close>

text \<open>
  The script runs under \<open>set -euo pipefail\<close>: a command that fails outside a condition ends
  it with status 1. The diagnostics that \<open>mkdir\<close>, \<open>touch\<close> and the shell print on a failure
  are not modelled; every \<open>echo\<close> is one printed line.
\<close>

definition SH_VERSION :: jsstring where
  "SH_VERSION = js ''0.1.0''"

definition BOOTSTRAP_TEXT :: jsstring where
  "BOOTSTRAP_TEXT =
     js ''\<newline>## Priors\<newline>\<newline>This project uses agent priors (`.claude/priors/`) '' @ [8212]
     @ js '' persistent knowledge the agent accumulates across sessions.\<newline>\<newline>**Start of every task:** List `.claude/priors/` and read each file's YAML frontmatter (`topic`, `summary`). Load full content only for files relevant to the current task.\<newline>\<newline>**End of every conversation** where you were corrected, discovered something unexpected, or the user provided context you couldn't derive from code: load the `knowledge-extraction` skill from `.claude/skills/` and extract priors.''"

text \<open>
  What a run of the script reads from its process: the working directory, and the text
  between the two \<open>SKILLEOF\<close> lines (a constant of the script, 121 lines long, which is a
  parameter here).
\<close>

record sh_env =
  pwd :: path
  skill_heredoc :: jsstring

text \<open>The tests \<open>[ -d p ]\<close> and \<open>[ -f p ]\<close>.\<close>

definition test_d :: "filesystem \<Rightarrow> path \<Rightarrow> bool" where
  "test_d fs p = (fs p = Some Dir)"

definition test_f :: "filesystem \<Rightarrow> path \<Rightarrow> bool" where
  "test_f fs p = is_file (fs p)"

text \<open>\<open>mkdir -p\<close>, \<open>touch\<close>, and the redirections \<open>> p\<close> and \<open>>> p\<close>; \<open>None\<close> when they fail.\<close>

definition mkdir_p :: "filesystem \<Rightarrow> path \<Rightarrow> filesystem option" where
  "mkdir_p fs p =
     (if list_ex (\<lambda>q. is_file (fs q)) (prefixes p) then None
      else Some (\<lambda>q. if prefix q p then Some Dir else fs q))"

definition touch :: "filesystem \<Rightarrow> path \<Rightarrow> filesystem option" where
  "touch fs p =
     (case fs p of
        Some n \<Rightarrow> Some fs
      | None \<Rightarrow> if fs (butlast p) = Some Dir then Some (fs(p \<mapsto> File [])) else None)"

definition redirect_to :: "filesystem \<Rightarrow> path \<Rightarrow> jsstring \<Rightarrow> filesystem option" where
  "redirect_to fs p text =
     (case fs p of
        Some Dir \<Rightarrow> None
      | Some (File old) \<Rightarrow> Some (fs(p \<mapsto> File text))
      | None \<Rightarrow> if fs (butlast p) = Some Dir then Some (fs(p \<mapsto> File text)) else None)"

definition append_to :: "filesystem \<Rightarrow> path \<Rightarrow> jsstring \<Rightarrow> filesystem option" where
  "append_to fs p text =
     (case fs p of
        Some Dir \<Rightarrow> None
      | Some (File old) \<Rightarrow> Some (fs(p \<mapsto> File (old @ text)))
      | None \<Rightarrow> if fs (butlast p) = Some Dir then Some (fs(p \<mapsto> File text)) else None)"

text \<open>
  \<open>grep -q\<close> with a basic regular expression that has ordinary characters and the dot
  only, as the two patterns of the script do: some line of the text matches somewhere.
\<close>

datatype bre = Lit nat | AnyChar

fun bre_at :: "bre list \<Rightarrow> jsstring \<Rightarrow> bool" where
  "bre_at [] s = True"
| "bre_at (b # bs) [] = False"
| "bre_at (Lit c # bs) (x # xs) = (x = c \<and> bre_at bs xs)"
| "bre_at (AnyChar # bs) (x # xs) = bre_at bs xs"

fun bre_in_line :: "bre list \<Rightarrow> jsstring \<Rightarrow> bool" where
  "bre_in_line pat [] = bre_at pat []"
| "bre_in_line pat (x # xs) = (bre_at pat (x # xs) \<or> bre_in_line pat xs)"

text \<open>The lines of a text, split at LF.\<close>

fun lines_of :: "jsstring \<Rightarrow> jsstring list" where
  "lines_of [] = [[]]"
| "lines_of (c # cs) =
     (if c = 10 then [] # lines_of cs
      else (case lines_of cs of [] \<Rightarrow> [[c]] | l # ls \<Rightarrow> (c # l) # ls))"

definition grep_q :: "bre list \<Rightarrow> jsstring \<Rightarrow> bool" where
  "grep_q pat text = list_ex (bre_in_line pat) (lines_of text)"

definition SH_PRIORS_MARKER :: "bre list" where
  "SH_PRIORS_MARKER = map Lit (js ''## Priors'')"

definition GITIGNORE_PATTERN :: "bre list" where
  "GITIGNORE_PATTERN = AnyChar # map Lit (js ''claude/priors/'')"

text \<open>
  The loop over the arguments: \<open>--shared\<close> sets the flag, \<open>--help\<close> and \<open>-h\<close> end the script
  (\<open>None\<close>), anything else is passed over.
\<close>

fun parse_args :: "jsstring list \<Rightarrow> bool \<Rightarrow> bool option" where
  "parse_args [] shared = Some shared"
| "parse_args (arg # rest) shared =
     (if arg = js ''--shared'' then parse_args rest True
      else if arg = js ''--help'' \<or> arg = js ''-h'' then None
      else parse_args rest shared)"

definition sh_usage :: printed where
  "sh_usage =
     [(Stdout, js ''claude-priors v'' @ SH_VERSION @ js '' '' @ [8212]
               @ js '' Persistent agent memory for AI coding assistants''),
      (Stdout, []),
      (Stdout, js ''Usage: curl -fsSL https://raw.githubusercontent.com/<org>/claude-priors/main/install.sh | sh''),
      (Stdout, js ''   or: ./install.sh [--shared]''),
      (Stdout, []),
      (Stdout, js ''Options:''),
      (Stdout, js ''  --shared    Git-track priors (default: git-ignored)'')]"

text \<open>Step 1 of the script: \<open>.claude/priors/\<close>.\<close>

definition sh_priors_dir :: "path \<Rightarrow> filesystem \<Rightarrow> outcome \<times> filesystem \<times> printed" where
  "sh_priors_dir wd fs =
     (if \<not> test_d fs (wd @ [js ''.claude'', js ''priors'']) then
        (case mkdir_p fs (wd @ [js ''.claude'', js ''priors'']) of
           None \<Rightarrow> (Exit 1, fs, [])
         | Some fs1 \<Rightarrow>
             (case touch fs1 (wd @ [js ''.claude'', js ''priors'', js ''.gitkeep'']) of
                None \<Rightarrow> (Exit 1, fs1, [])
              | Some fs2 \<Rightarrow> (Completed, fs2, [(Stdout, js ''  Created .claude/priors/'')])))
      else (Completed, fs, [(Stdout, js ''  .claude/priors/ already exists'')]))"

text \<open>Step 2 of the script: \<open>SKILL.md\<close>.\<close>

definition sh_skill :: "sh_env \<Rightarrow> filesystem \<Rightarrow> outcome \<times> filesystem \<times> printed" where
  "sh_skill e fs =
     (let SKILL_DIR = pwd e @ [js ''.claude'', js ''skills'', js ''knowledge-extraction''] in
      case mkdir_p fs SKILL_DIR of
        None \<Rightarrow> (Exit 1, fs, [])
      | Some fs1 \<Rightarrow>
          if \<not> test_f fs1 (SKILL_DIR @ [js ''SKILL.md'']) then
            (case redirect_to fs1 (SKILL_DIR @ [js ''SKILL.md'']) (skill_heredoc e) of
               None \<Rightarrow> (Exit 1, fs1, [])
             | Some fs2 \<Rightarrow>
                 (Completed, fs2,
                  [(Stdout, js ''  Created .claude/skills/knowledge-extraction/SKILL.md'')]))
          else (Completed, fs1, [(Stdout, js ''  SKILL.md already exists'')]))"

text \<open>Step 3 of the script: the bootstrap in \<open>CLAUDE.md\<close> or \<open>AGENTS.md\<close>.\<close>

definition INSTRUCTION_FILE :: "path \<Rightarrow> filesystem \<Rightarrow> jsstring" where
  "INSTRUCTION_FILE wd fs =
     (if test_f fs (wd @ [js ''CLAUDE.md'']) then js ''CLAUDE.md''
      else if test_f fs (wd @ [js ''AGENTS.md'']) then js ''AGENTS.md''
      else js ''CLAUDE.md'')"

definition sh_bootstrap :: "sh_env \<Rightarrow> filesystem \<Rightarrow> outcome \<times> filesystem \<times> printed" where
  "sh_bootstrap e fs =
     (let f = INSTRUCTION_FILE (pwd e) fs in
      if test_f fs (pwd e @ [f]) then
        (if grep_q SH_PRIORS_MARKER (file_text fs (pwd e @ [f])) then
           (Completed, fs, [(Stdout, js ''  '' @ f @ js '' already has priors bootstrap'')])
         else
           (case append_to fs (pwd e @ [f]) (js ''\<newline>'' @ BOOTSTRAP_TEXT @ js ''\<newline>'') of
              None \<Rightarrow> (Exit 1, fs, [])
            | Some fs1 \<Rightarrow>
                (Completed, fs1, [(Stdout, js ''  Appended priors bootstrap to '' @ f)])))
      else
        (case redirect_to fs (pwd e @ [f]) (BOOTSTRAP_TEXT @ js ''\<newline>'') of
           None \<Rightarrow> (Exit 1, fs, [])
         | Some fs1 \<Rightarrow>
             (Completed, fs1, [(Stdout, js ''  Created '' @ f @ js '' with priors bootstrap'')])))"

text \<open>Step 4 of the script: \<open>.gitignore\<close>.\<close>

definition sh_gitignore :: "sh_env \<Rightarrow> bool \<Rightarrow> filesystem \<Rightarrow> outcome \<times> filesystem \<times> printed" where
  "sh_gitignore e shared fs =
     (if \<not> shared then
        (if test_f fs (pwd e @ [js ''.gitignore'']) then
           (if grep_q GITIGNORE_PATTERN (file_text fs (pwd e @ [js ''.gitignore''])) then
              (Completed, fs, [(Stdout, js ''  .gitignore already excludes priors'')])
            else
              (case append_to fs (pwd e @ [js ''.gitignore''])
                      (js ''\<newline># Agent priors (local knowledge)\<newline>.claude/priors/\<newline>'') of
                 None \<Rightarrow> (Exit 1, fs, [])
               | Some fs1 \<Rightarrow>
                   (Completed, fs1, [(Stdout, js ''  Added .claude/priors/ to .gitignore'')])))
         else
           (case redirect_to fs (pwd e @ [js ''.gitignore''])
                   (js ''# Agent priors (local knowledge)\<newline>.claude/priors/\<newline>'') of
              None \<Rightarrow> (Exit 1, fs, [])
            | Some fs1 \<Rightarrow>
                (Completed, fs1, [(Stdout, js ''  Created .gitignore with priors exclusion'')])))
      else (Completed, fs, [(Stdout, js ''  --shared: priors will be git-tracked'')]))"

definition install_sh :: "sh_env \<Rightarrow> jsstring list \<Rightarrow> filesystem \<Rightarrow> outcome \<times> filesystem \<times> printed" where
  "install_sh e args fs =
     (case parse_args args False of
        None \<Rightarrow> (Exit 0, fs, sh_usage)
      | Some SHARED \<Rightarrow>
          and_then
            (Completed, fs,
             [(Stdout, []),
              (Stdout, js ''claude-priors v'' @ SH_VERSION),
              (Stdout, js ''Initializing in: '' @ path_str (pwd e)),
              (Stdout, [])])
            (\<lambda>fs0. and_then (sh_priors_dir (pwd e) fs0)
            (\<lambda>fs1. and_then (sh_skill e fs1)
            (\<lambda>fs2. and_then (sh_bootstrap e fs2)
            (\<lambda>fs3. and_then (sh_gitignore e SHARED fs3)
            (\<lambda>fs4. (Completed, fs4,
                    [(Stdout, []),
                     (Stdout, js ''Done! Your agent will now learn from every conversation.''),
                     (Stdout, [])])))))))"

section \<open>Words of the specification\<close>




text \<open>
  The metadata block as the specification words it: the first line holds three hyphens
  and nothing else, and a later line does.
\<close>

definition spec_has_metadata_block :: "jsstring \<Rightarrow> bool" where
  "spec_has_metadata_block content =
     (case lines_of content of [] \<Rightarrow> False | l # ls \<Rightarrow> l = js ''---'' \<and> js ''---'' \<in> set ls)"

text \<open>A file name without its extension \<open>.md\<close>, as the specification words it.\<close>

definition spec_name_without_extension :: "jsstring \<Rightarrow> jsstring" where
  "spec_name_without_extension file = take (length file - 3) file"




text \<open>
  What the steps of \<open>init\<close> leave of a path that none of them writes: a file stays the
  file it was, nothing becomes a file, and what exists keeps existing.
\<close>

definition keeps :: "filesystem \<Rightarrow> filesystem \<Rightarrow> path \<Rightarrow> bool" where
  "keeps fs fs' a = ((\<forall>c. (fs' a = Some (File c)) = (fs a = Some (File c))) \<and> (fs a \<noteq> None \<longrightarrow> fs' a \<noteq> None))"

section \<open>Example states\<close>

text \<open>
  A package installed under \<open>/pkg\<close> (\<open>cli.js\<close> in \<open>/pkg/node/bin\<close>, the two assets in
  \<open>/pkg/skill\<close> and \<open>/pkg/bootstrap\<close>) and an empty project directory \<open>/proj\<close>, where
  the commands run.
\<close>

definition example_env :: env where
  "example_env =
     \<lparr>dirname = [js ''pkg'', js ''node'', js ''bin''], cwd = [js ''proj''], home = None,
      listing = [js ''data.md'', js ''notes.md'', js ''.gitkeep'']\<rparr>"

definition installed :: filesystem where
  "installed =
     [[] \<mapsto> Dir,
      [js ''pkg''] \<mapsto> Dir,
      [js ''pkg'', js ''skill''] \<mapsto> Dir,
      [js ''pkg'', js ''skill'', js ''SKILL.md''] \<mapsto> File (js ''# Skill v2''),
      [js ''pkg'', js ''bootstrap''] \<mapsto> Dir,
      [js ''pkg'', js ''bootstrap'', js ''CLAUDE.md.snippet''] \<mapsto>
        File (js ''\<newline>## Priors\<newline>\<newline>Scan priors.\<newline>''),
      [js ''proj''] \<mapsto> Dir]"

text \<open>The project with a \<open>CLAUDE.md\<close> of the given text.\<close>

definition with_instructions :: "jsstring \<Rightarrow> filesystem" where
  "with_instructions text = installed([js ''proj'', js ''CLAUDE.md''] \<mapsto> File text)"

text \<open>The project with an installed \<open>SKILL.md\<close> of the given text.\<close>

definition with_skill :: "jsstring \<Rightarrow> filesystem" where
  "with_skill text =
     installed
       ([js ''proj'', js ''.claude''] \<mapsto> Dir,
        [js ''proj'', js ''.claude'', js ''skills''] \<mapsto> Dir,
        [js ''proj'', js ''.claude'', js ''skills'', js ''knowledge-extraction''] \<mapsto> Dir,
        [js ''proj'', js ''.claude'', js ''skills'', js ''knowledge-extraction'', js ''SKILL.md'']
          \<mapsto> File text)"

text \<open>The project with a priors directory of two knowledge files.\<close>

definition with_priors :: filesystem where
  "with_priors =
     installed
       ([js ''proj'', js ''.claude''] \<mapsto> Dir,
        [js ''proj'', js ''.claude'', js ''priors''] \<mapsto> Dir,
        [js ''proj'', js ''.claude'', js ''priors'', js ''.gitkeep''] \<mapsto> File [],
        [js ''proj'', js ''.claude'', js ''priors'', js ''data.md''] \<mapsto>
          File (js ''---\<newline>topic: analytics\<newline>summary: test data\<newline>entries: 3\<newline>last_updated: 2024-01-01\<newline>---\<newline># Data\<newline>''),
        [js ''proj'', js ''.claude'', js ''priors'', js ''notes.md''] \<mapsto>
          File (js ''---\<newline>topic: notes\<newline>entries: 5\<newline>---\<newline>''))"



text \<open>
  The script run in the same project directory; the reference document embedded in it is the
  one of the installed package.
\<close>

definition sh_example :: sh_env where
  "sh_example = \<lparr>pwd = [js ''proj''], skill_heredoc = js ''# Skill v2''\<rparr>"

section \<open>Facts about the string functions\<close>

lemma str_includes_iff: "str_includes s m \<longleftrightarrow> (\<exists>pre post. s = pre @ m @ post)"
proof (induction s)
  case Nil
  then show ?case by auto
next
  case (Cons c cs)
  show ?case
  proof
    assume "str_includes (c # cs) m"
    then consider "prefix m (c # cs)" | "str_includes cs m" by auto
    then show "\<exists>pre post. c # cs = pre @ m @ post"
    proof cases
      case 1
      then obtain post where "c # cs = m @ post" by (auto simp: prefix_def)
      then have "c # cs = [] @ m @ post" by simp
      then show ?thesis by blast
    next
      case 2
      with Cons.IH obtain pre post where "cs = pre @ m @ post" by blast
      then have "c # cs = (c # pre) @ m @ post" by simp
      then show ?thesis by blast
    qed
  next
    assume "\<exists>pre post. c # cs = pre @ m @ post"
    then obtain pre post where eq: "c # cs = pre @ m @ post" by blast
    show "str_includes (c # cs) m"
    proof (cases pre)
      case Nil
      with eq have "prefix m (c # cs)" by (simp add: prefix_def)
      then show ?thesis by simp
    next
      case (Cons a pre')
      with eq have "cs = pre' @ m @ post" by simp
      with Cons.IH have "str_includes cs m" by blast
      then show ?thesis by simp
    qed
  qed
qed

section \<open>Facts about numbers\<close>

lemma bits_le: "n < 2 ^ k \<Longrightarrow> bits n \<le> k"
proof (induction k arbitrary: n)
  case 0
  then show ?case by (simp add: bits.simps)
next
  case (Suc k)
  show ?case
  proof (cases "n = 0")
    case True
    then show ?thesis by (simp add: bits.simps)
  next
    case False
    from Suc.prems have "n div 2 < 2 ^ k" by simp
    from Suc.IH[OF this] False show ?thesis by (simp add: bits.simps[of n])
  qed
qed

lemma bits_gt: "2 ^ k \<le> n \<Longrightarrow> k < bits n"
proof (induction k arbitrary: n)
  case 0
  then show ?case by (simp add: bits.simps[of n])
next
  case (Suc k)
  have n: "n \<noteq> 0"
  proof
    assume "n = 0"
    with Suc.prems show False by simp
  qed
  from Suc.prems have "2 ^ k \<le> n div 2" by simp
  with Suc.IH[of "n div 2"] n show ?case by (simp add: bits.simps[of n])
qed

lemma bits_le_iff: "bits n \<le> k \<longleftrightarrow> n < 2 ^ k"
  using bits_le[of n k] bits_gt[of k n] by (auto simp: not_less[symmetric] simp del: not_less)

lemma bits_eq: "2 ^ k \<le> n \<Longrightarrow> n < 2 ^ Suc k \<Longrightarrow> bits n = Suc k"
  using bits_le[of n "Suc k"] bits_gt[of k n] by simp

lemma round_nat_small: "n < 2 ^ 53 \<Longrightarrow> round_nat n = n"
  by (simp add: round_nat_def)

lemma round_to_multiple: "round_to e (q * 2 ^ e) = q * 2 ^ e"
  by (simp add: round_to_def)

lemma round_nat_fix_aux:
  assumes "2 ^ 52 \<le> q" and "q < 2 ^ 53" and "1 \<le> e"
  shows "round_nat (q * 2 ^ e) = q * 2 ^ e"
proof -
  have lo: "(2::nat) ^ (52 + e) \<le> q * 2 ^ e" using assms(1) by (simp add: power_add)
  have hi: "q * 2 ^ e < (2::nat) ^ (53 + e)" using assms(2) by (simp add: power_add)
  have "(2::nat) ^ 53 \<le> 2 ^ (52 + e)" using assms(3) by (intro power_increasing) simp_all
  with lo have big: "\<not> q * 2 ^ e < 2 ^ 53" by simp
  have "bits (q * 2 ^ e) = Suc (52 + e)" using lo hi by (intro bits_eq) simp_all
  then have "bits (q * 2 ^ e) - 53 = e" by simp
  with big show ?thesis by (simp add: round_nat_def round_to_multiple)
qed

lemma round_nat_fix:
  assumes "2 ^ 52 \<le> q" and "q \<le> 2 ^ 53" and "1 \<le> e"
  shows "round_nat (q * 2 ^ e) = q * 2 ^ e"
proof (cases "q < 2 ^ 53")
  case True
  with assms show ?thesis by (intro round_nat_fix_aux) simp_all
next
  case False
  with assms(2) have q: "q = 2 ^ 53" by simp
  have "round_nat (2 ^ 52 * 2 ^ Suc e) = 2 ^ 52 * 2 ^ Suc e"
    by (intro round_nat_fix_aux) simp_all
  moreover have "q * 2 ^ e = 2 ^ 52 * 2 ^ Suc e" unfolding q by simp
  ultimately show ?thesis by simp
qed

lemma round_nat_parts:
  assumes "\<not> n < 2 ^ 53"
  shows "1 \<le> bits n - 53" and "2 ^ 52 \<le> n div 2 ^ (bits n - 53)" and "n div 2 ^ (bits n - 53) < 2 ^ 53"
proof -
  from assms have "53 < bits n" by (intro bits_gt) simp
  then show e: "1 \<le> bits n - 53" by simp
  have b: "bits n = 53 + (bits n - 53)" using \<open>53 < bits n\<close> by simp
  have "n < 2 ^ bits n" using bits_le_iff[of n "bits n"] by simp
  then have hi: "n < 2 ^ 53 * 2 ^ (bits n - 53)" using b by (metis power_add)
  have "\<not> bits n \<le> bits n - 1" using \<open>53 < bits n\<close> by simp
  then have "2 ^ (bits n - 1) \<le> n" unfolding bits_le_iff by simp
  moreover have "bits n - 1 = 52 + (bits n - 53)" using \<open>53 < bits n\<close> by simp
  ultimately have lo: "2 ^ 52 * 2 ^ (bits n - 53) \<le> n" by (metis power_add)
  show "2 ^ 52 \<le> n div 2 ^ (bits n - 53)" using lo by (simp add: less_eq_div_iff_mult_less_eq)
  show "n div 2 ^ (bits n - 53) < 2 ^ 53" using hi by (simp add: less_mult_imp_div_less)
qed

lemma round_nat_idem: "round_nat (round_nat n) = round_nat n"
proof (cases "n < 2 ^ 53")
  case True
  then show ?thesis by (simp add: round_nat_def)
next
  case False
  note p = round_nat_parts[OF False]
  let ?e = "bits n - 53"
  let ?q = "n div 2 ^ ?e"
  obtain q' where r: "round_nat n = q' * 2 ^ ?e" and q': "q' = ?q \<or> q' = ?q + 1"
    using False by (auto simp: round_nat_def round_to_def)
  from q' p have "2 ^ 52 \<le> q'" "q' \<le> 2 ^ 53" by auto
  from round_nat_fix[OF this p(1)] r show ?thesis by simp
qed

lemma round_nat_big: "\<not> n < 2 ^ 53 \<Longrightarrow> \<not> round_nat n < 2 ^ 53"
proof -
  assume n: "\<not> n < 2 ^ 53"
  note p = round_nat_parts[OF n]
  let ?e = "bits n - 53"
  let ?q = "n div 2 ^ ?e"
  obtain q' where r: "round_nat n = q' * 2 ^ ?e" and q': "q' = ?q \<or> q' = ?q + 1"
    using n by (auto simp: round_nat_def round_to_def)
  from q' p have "2 ^ 52 \<le> q'" by auto
  moreover have "(2::nat) ^ 1 \<le> 2 ^ ?e" using p(1) by (intro power_increasing) simp_all
  ultimately have "2 ^ 52 * 2 ^ 1 \<le> q' * 2 ^ ?e" by (intro mult_le_mono)
  with r show ?thesis by simp
qed

lemma to_double_small: "n < 2 ^ 53 \<Longrightarrow> to_double n = Some n"
proof -
  assume n: "n < 2 ^ 53"
  then have "bits n \<le> 53" by (rule bits_le)
  with n show ?thesis by (simp add: to_double_def overflow_def round_nat_small)
qed

lemma to_double_idem: "to_double n = Some v \<Longrightarrow> to_double v = Some v"
  by (auto simp: to_double_def overflow_def round_nat_idem split: if_splits)

lemma to_double_exact: "to_double w = Some v \<Longrightarrow> v < 2 ^ 53 \<Longrightarrow> w = v"
  using round_nat_big[of w] by (auto simp: to_double_def overflow_def round_nat_def split: if_splits)

lemma Rep_jsnum_double: "Rep_jsnum x = Some v \<Longrightarrow> to_double v = Some v"
  using Rep_jsnum[of x] to_double_idem by auto


lemma zero_jsnum_num: "0 = num 0"
  by (simp add: Rep_jsnum_inject[symmetric] zero_jsnum.rep_eq num.rep_eq)

lemma jsnum_add_0_right [simp]: "t + 0 = (t :: jsnum)"
  by (cases "Rep_jsnum t")
     (simp_all add: Rep_jsnum_inject[symmetric] plus_jsnum.rep_eq zero_jsnum.rep_eq to_double_small
        Rep_jsnum_double)

lemma jsnum_add_0_left [simp]: "0 + t = (t :: jsnum)"
  by (cases "Rep_jsnum t")
     (simp_all add: Rep_jsnum_inject[symmetric] plus_jsnum.rep_eq zero_jsnum.rep_eq to_double_small
        Rep_jsnum_double)


lemma str_of_nat_times_10: "0 < s \<Longrightarrow> str_of_nat (s * 10) = str_of_nat s @ [48]"
  by (subst str_of_nat.simps) simp

lemma str_of_nat_shift: "0 < s \<Longrightarrow> str_of_nat (s * 10 ^ p) = str_of_nat s @ replicate p 48"
proof (induction p)
  case 0
  then show ?case by simp
next
  case (Suc p)
  then have "str_of_nat (s * 10 ^ p * 10) = str_of_nat (s * 10 ^ p) @ [48]"
    by (intro str_of_nat_times_10) simp
  with Suc show ?case by (simp add: mult.assoc replicate_append_same mult.commute[of 10])
qed

lemma length_str_of_nat: "n < 10 ^ k \<Longrightarrow> 0 < k \<Longrightarrow> length (str_of_nat n) \<le> k"
proof (induction k arbitrary: n)
  case 0
  then show ?case by simp
next
  case (Suc k)
  show ?case
  proof (cases "n < 10")
    case True
    then show ?thesis by (simp add: str_of_nat.simps)
  next
    case False
    then have k: "0 < k" using Suc.prems by (cases k) auto
    from Suc.prems have "n div 10 < 10 ^ k" by simp
    from Suc.IH[OF this k] False show ?thesis by (simp add: str_of_nat.simps[of n])
  qed
qed

lemma closest_mem: "closest v c ds \<in> set (c # ds)"
  by (induction ds arbitrary: c) auto

lemma hits_at_mem: "c \<in> set (hits_at v k p) \<Longrightarrow> hit v k p (fst c) \<and> snd c = p"
  unfolding hits_at_def set_map set_filter by auto

lemma candidates_exact:
  assumes "c \<in> set (candidates v n k)" and "v < 2 ^ 53"
  shows "fst c * 10 ^ snd c = v \<and> 0 < fst c"
proof -
  from assms(1) obtain p where "hit v k p (fst c)" and "snd c = p"
    unfolding candidates_def set_append using hits_at_mem by blast
  then have "10 ^ (k - 1) \<le> fst c" and "to_double (fst c * 10 ^ snd c) = Some v"
    by (auto simp: hit_def split: if_splits)
  with to_double_exact[OF this(2) assms(2)] show ?thesis
    by (cases "fst c = 0") auto
qed

lemma shortest_exact:
  assumes "v < 2 ^ 53" and "0 < v"
  shows "fst (shortest v n k fuel) * 10 ^ snd (shortest v n k fuel) = v \<and> 0 < fst (shortest v n k fuel)"
proof (induction fuel arbitrary: k)
  case 0
  with assms show ?case by simp
next
  case (Suc fuel)
  show ?case
  proof (cases "candidates v n k")
    case Nil
    with Suc show ?thesis by simp
  next
    case (Cons c cs)
    have "closest v c cs \<in> set (candidates v n k)" using closest_mem[of v c cs] Cons by simp
    from candidates_exact[OF this assms(1)] Cons show ?thesis by simp
  qed
qed

lemma digits_of_small:
  assumes "v < 2 ^ 53"
  shows "digits_of v = str_of_nat v"
proof (cases "v = 0")
  case True
  then show ?thesis by (simp add: digits_of_def str_of_nat.simps)
next
  case False
  let ?c = "shortest_digits v (length (str_of_nat v))"
  from False assms have e: "fst ?c * 10 ^ snd ?c = v" "0 < fst ?c"
    using shortest_exact[of v "length (str_of_nat v)" 1 "length (str_of_nat v)"]
    by (simp_all add: shortest_digits_def)
  from str_of_nat_shift[OF e(2), of "snd ?c"] e(1)
  have s: "str_of_nat v = str_of_nat (fst ?c) @ replicate (snd ?c) 48" by simp
  have "v < 10 ^ 16" using assms by simp
  then have "length (str_of_nat v) \<le> 16" by (rule length_str_of_nat) simp
  moreover have "length (str_of_nat v) = length (str_of_nat (fst ?c)) + snd ?c"
    by (subst s) simp
  ultimately have "length (str_of_nat (fst ?c)) + snd ?c \<le> 21" by simp
  with s False show ?thesis by (simp add: digits_of_def render_pair_def render_def)
qed

lemma number_to_string_num: "n < 2 ^ 53 \<Longrightarrow> number_to_string (num n) = str_of_nat n"
  by (simp add: number_to_string.rep_eq num.rep_eq to_double_small digits_of_small)

lemma number_to_string_zero [simp]: "number_to_string 0 = js ''0''"
  by (simp add: zero_jsnum_num number_to_string_num str_of_nat.simps)

section \<open>Facts about the filesystem calls\<close>

lemma mkdir_Inr_iff:
  "mkdirSync_recursive fs p = Inr fs' \<longleftrightarrow>
   (\<forall>q. prefix q p \<longrightarrow> \<not> is_file (fs q)) \<and> fs' = (\<lambda>q. if prefix q p then Some Dir else fs q)"
  by (auto simp: mkdirSync_recursive_def list_ex_iff)

lemma mkdir_file_iff:
  "mkdirSync_recursive fs p = Inr fs' \<Longrightarrow> (fs' q = Some (File c)) = (fs q = Some (File c))"
  by (auto simp: mkdir_Inr_iff is_file_def)

lemma mkdir_mono:
  "mkdirSync_recursive fs p = Inr fs' \<Longrightarrow> fs q \<noteq> None \<Longrightarrow> fs' q \<noteq> None"
  by (auto simp: mkdir_Inr_iff)

lemma mkdir_target:
  "mkdirSync_recursive fs p = Inr fs' \<Longrightarrow> fs' p = Some Dir"
  by (auto simp: mkdir_Inr_iff)

lemma mkdir_other:
  "mkdirSync_recursive fs p = Inr fs' \<Longrightarrow> \<not> prefix q p \<Longrightarrow> fs' q = fs q"
  by (auto simp: mkdir_Inr_iff)

lemma mkdir_wf:
  "mkdirSync_recursive fs p = Inr fs' \<Longrightarrow> wf_fs fs \<Longrightarrow> wf_fs fs'"
  unfolding wf_fs_def mkdir_Inr_iff
  by (metis append_prefixD option.distinct(1))

lemma write_other:
  "writeFileSync fs p c = Inr fs' \<Longrightarrow> q \<noteq> p \<Longrightarrow> fs' q = fs q"
  by (auto simp: writeFileSync_def split: option.splits node.splits)

lemma write_same:
  "writeFileSync fs p c = Inr fs' \<Longrightarrow> fs' p = Some (File c)"
  by (auto simp: writeFileSync_def split: option.splits node.splits)

lemma write_mono:
  "writeFileSync fs p c = Inr fs' \<Longrightarrow> fs q \<noteq> None \<Longrightarrow> fs' q \<noteq> None"
  by (auto simp: writeFileSync_def split: option.splits node.splits)

lemma write_wf:
  assumes "writeFileSync fs p c = Inr fs'" and "wf_fs fs"
  shows "wf_fs fs'"
proof -
  have upd: "fs' = fs(p \<mapsto> File c)" and notdir: "fs p \<noteq> Some Dir"
    using assms(1) by (auto simp: writeFileSync_def split: option.splits node.splits)
  have parent: "p = q @ [x] \<Longrightarrow> fs q = Some Dir" for q x
    using assms by (auto simp: writeFileSync_def wf_fs_def split: option.splits node.splits)
  show ?thesis
    unfolding wf_fs_def
  proof (intro allI impI)
    fix q x
    assume ex: "fs' (q @ [x]) \<noteq> None"
    show "fs' q = Some Dir"
    proof (cases "q @ [x] = p")
      case True
      then have "fs q = Some Dir" using parent by auto
      moreover from this notdir have "q \<noteq> p" by auto
      ultimately show ?thesis by (simp add: upd)
    next
      case False
      with ex have "fs (q @ [x]) \<noteq> None" by (simp add: upd)
      with assms(2) have d: "fs q = Some Dir" by (auto simp: wf_fs_def)
      with notdir have "q \<noteq> p" by auto
      with d show ?thesis by (simp add: upd)
    qed
  qed
qed

lemma wf_child_None:
  "wf_fs fs \<Longrightarrow> fs p \<noteq> Some Dir \<Longrightarrow> fs (p @ [x]) = None"
  unfolding wf_fs_def by blast

lemma readAsset_not_Completed [simp]:
  "readAsset fs a b \<noteq> Inl (Completed, out)"
  by (auto simp: readAsset_def split: option.splits sum.splits)

subsection \<open>Step 1\<close>

lemma step1_stable:
  "existsSync fs (wd @ [js ''.claude'', js ''priors'']) \<Longrightarrow>
   init_priors_dir wd fs = (Completed, fs, [(Stdout, js ''  .claude/priors/ already exists'')])"
  by (simp add: init_priors_dir_def)

lemma step1_mono:
  "init_priors_dir wd fs = (r, fs', out) \<Longrightarrow> fs q \<noteq> None \<Longrightarrow> fs' q \<noteq> None"
  by (auto simp: init_priors_dir_def Let_def split: if_splits sum.splits
           dest: mkdir_mono write_mono)

lemma step1_file_iff:
  "init_priors_dir wd fs = (r, fs', out) \<Longrightarrow> x \<noteq> js ''.gitkeep'' \<Longrightarrow>
   (fs' (p @ [x]) = Some (File c)) = (fs (p @ [x]) = Some (File c))"
  by (auto simp: init_priors_dir_def Let_def mkdir_file_iff write_other split: if_splits sum.splits)

lemma step1_wf:
  "init_priors_dir wd fs = (r, fs', out) \<Longrightarrow> wf_fs fs \<Longrightarrow> wf_fs fs'"
  by (auto simp: init_priors_dir_def Let_def split: if_splits sum.splits
           dest: mkdir_wf write_wf)

lemma step1_post:
  "init_priors_dir wd fs = (Completed, fs', out) \<Longrightarrow> existsSync fs' (wd @ [js ''.claude'', js ''priors''])"
  by (auto simp: init_priors_dir_def Let_def existsSync_def split: if_splits sum.splits
           dest!: mkdir_target write_mono)

lemma step1_fail:
  assumes "init_priors_dir wd fs = (r, fs', out)" and "wf_fs fs" and "r \<noteq> Completed"
  shows "fs' = fs"
proof (cases "existsSync fs (wd @ [js ''.claude'', js ''priors''])")
  case True
  with assms show ?thesis by (simp add: step1_stable)
next
  case False
  show ?thesis
  proof (cases "mkdirSync_recursive fs (wd @ [js ''.claude'', js ''priors''])")
    case (Inl ex)
    with False assms show ?thesis by (simp add: init_priors_dir_def)
  next
    case (Inr fs1)
    have "fs (wd @ [js ''.claude'', js ''priors''] @ [js ''.gitkeep'']) = None"
      using False assms(2) wf_child_None[of fs "wd @ [js ''.claude'', js ''priors'']"]
      by (simp add: existsSync_def)
    then have "fs1 (wd @ [js ''.claude'', js ''priors'', js ''.gitkeep'']) = None"
      using mkdir_other[OF Inr, of "wd @ [js ''.claude'', js ''priors'', js ''.gitkeep'']"] by simp
    moreover have "fs1 (wd @ [js ''.claude'', js ''priors'']) = Some Dir"
      using mkdir_target[OF Inr] .
    ultimately have "\<exists>fs2. writeFileSync fs1 (wd @ [js ''.claude'', js ''priors'', js ''.gitkeep'']) [] = Inr fs2"
      by (simp add: writeFileSync_def butlast_append)
    with False Inr assms show ?thesis by (auto simp: init_priors_dir_def)
  qed
qed

subsection \<open>Step 2\<close>

lemma step2_stable:
  "readAsset fs (SKILL_SRC e) (SKILL_SRC_ALT e) = Inr content \<Longrightarrow> skillDir_of e g = Some d \<Longrightarrow>
   fs d \<noteq> None \<Longrightarrow> fs (d @ [js ''SKILL.md'']) = Some (File content) \<Longrightarrow>
   init_skill e g fs = (Completed, fs, [(Stdout, js ''  SKILL.md already up to date'')])"
  by (simp add: init_skill_def existsSync_def readFileSync_def)

lemma step2_mono:
  "init_skill e g fs = (r, fs', out) \<Longrightarrow> fs q \<noteq> None \<Longrightarrow> fs' q \<noteq> None"
  by (auto simp: init_skill_def Let_def split: if_splits sum.splits option.splits prod.splits
           dest: mkdir_mono write_mono)

lemma step2_file_iff:
  "init_skill e g fs = (r, fs', out) \<Longrightarrow> x \<noteq> js ''SKILL.md'' \<Longrightarrow>
   (fs' (p @ [x]) = Some (File c)) = (fs (p @ [x]) = Some (File c))"
  by (auto simp: init_skill_def Let_def mkdir_file_iff write_other
           split: if_splits sum.splits option.splits prod.splits)

lemma step2_file_iff':
  "init_skill e g fs = (r, fs', out) \<Longrightarrow> skillDir_of e g = Some d \<Longrightarrow> q \<noteq> d @ [js ''SKILL.md''] \<Longrightarrow>
   (fs' q = Some (File c)) = (fs q = Some (File c))"
  by (auto simp: init_skill_def Let_def mkdir_file_iff write_other
           split: if_splits sum.splits option.splits prod.splits)

lemma step2_wf:
  "init_skill e g fs = (r, fs', out) \<Longrightarrow> wf_fs fs \<Longrightarrow> wf_fs fs'"
  by (auto simp: init_skill_def Let_def split: if_splits sum.splits option.splits prod.splits
           dest: mkdir_wf write_wf)

lemma step2_post:
  "init_skill e g fs = (Completed, fs', out) \<Longrightarrow>
   \<exists>d content. skillDir_of e g = Some d \<and> readAsset fs (SKILL_SRC e) (SKILL_SRC_ALT e) = Inr content \<and>
      fs' d \<noteq> None \<and> fs' (d @ [js ''SKILL.md'']) = Some (File content)"
  by (auto simp: init_skill_def Let_def existsSync_def readFileSync_def
           split: if_splits sum.splits option.splits prod.splits node.splits
           dest: mkdir_target write_mono write_same)

lemma step2_fail:
  assumes run: "init_skill e g fs = (r, fs', out)" and wf: "wf_fs fs" and r: "r \<noteq> Completed"
  shows "fs' = fs"
proof (cases "readAsset fs (SKILL_SRC e) (SKILL_SRC_ALT e)")
  case (Inl a)
  with run show ?thesis by (auto simp: init_skill_def split: prod.splits)
next
  case (Inr content)
  show ?thesis
  proof (cases "skillDir_of e g")
    case None
    with Inr run show ?thesis by (simp add: init_skill_def)
  next
    case (Some d)
    show ?thesis
    proof (cases "existsSync fs d")
      case True
      with Inr Some run r show ?thesis
        by (auto simp: init_skill_def Let_def split: if_splits sum.splits)
    next
      case False
      show ?thesis
      proof (cases "mkdirSync_recursive fs d")
        case (Inl ex)
        with False Inr Some run show ?thesis by (simp add: init_skill_def)
      next
        case mk: (Inr fs1)
        have "fs (d @ [js ''SKILL.md'']) = None"
          using False wf wf_child_None[of fs d] by (simp add: existsSync_def)
        then have "fs1 (d @ [js ''SKILL.md'']) = None"
          using mkdir_other[OF mk, of "d @ [js ''SKILL.md'']"] by simp
        moreover have "fs1 d = Some Dir"
          using mkdir_target[OF mk] .
        ultimately have "\<exists>fs2. writeFileSync fs1 (d @ [js ''SKILL.md'']) content = Inr fs2"
          and "\<not> existsSync fs1 (d @ [js ''SKILL.md''])"
          by (simp_all add: writeFileSync_def existsSync_def)
        with False Inr Some mk run r show ?thesis
          by (auto simp: init_skill_def Let_def)
      qed
    qed
  qed
qed

subsection \<open>Step 3\<close>

lemma instructionFile_cases:
  "instructionFile_of wd fs = js ''CLAUDE.md'' \<or> instructionFile_of wd fs = js ''AGENTS.md''"
  by (simp add: instructionFile_of_def)

lemma step3_mono:
  "init_bootstrap e fs = (r, fs', out) \<Longrightarrow> fs q \<noteq> None \<Longrightarrow> fs' q \<noteq> None"
  by (auto simp: init_bootstrap_def Let_def split: if_splits sum.splits option.splits prod.splits
           dest: write_mono)

lemma step3_other:
  "init_bootstrap e fs = (r, fs', out) \<Longrightarrow> q \<noteq> cwd e @ [instructionFile_of (cwd e) fs] \<Longrightarrow>
   fs' q = fs q"
  by (auto simp: init_bootstrap_def Let_def write_other split: if_splits sum.splits option.splits prod.splits)

lemma step3_wf:
  "init_bootstrap e fs = (r, fs', out) \<Longrightarrow> wf_fs fs \<Longrightarrow> wf_fs fs'"
  by (auto simp: init_bootstrap_def Let_def split: if_splits sum.splits option.splits prod.splits
           dest: write_wf)

lemma step3_fail:
  "init_bootstrap e fs = (r, fs', out) \<Longrightarrow> r \<noteq> Completed \<Longrightarrow> fs' = fs"
  by (auto simp: init_bootstrap_def Let_def split: if_splits sum.splits option.splits prod.splits)

lemma step3_marked:
  "init_bootstrap e fs = (r, fs', out) \<Longrightarrow>
   fs (cwd e @ [instructionFile_of (cwd e) fs]) = Some (File existing) \<Longrightarrow>
   str_includes existing PRIORS_MARKER \<Longrightarrow> fs' = fs"
  by (auto simp: init_bootstrap_def Let_def existsSync_def readFileSync_def
           split: if_splits sum.splits option.splits prod.splits)

lemma step3_appended:
  "init_bootstrap e fs = (Completed, fs', out) \<Longrightarrow>
   fs (cwd e @ [instructionFile_of (cwd e) fs]) = Some (File existing) \<Longrightarrow>
   \<not> str_includes existing PRIORS_MARKER \<Longrightarrow>
   \<exists>b. readAsset fs (BOOTSTRAP_SRC e) (BOOTSTRAP_SRC_ALT e) = Inr b \<and>
       fs' (cwd e @ [instructionFile_of (cwd e) fs]) =
         Some (File (trimEnd existing @ js ''\<newline>\<newline>'' @ trim b @ js ''\<newline>''))"
  by (auto simp: init_bootstrap_def Let_def existsSync_def readFileSync_def
           split: if_splits sum.splits option.splits prod.splits dest: write_same)

lemma step3_created:
  "init_bootstrap e fs = (Completed, fs', out) \<Longrightarrow>
   fs (cwd e @ [instructionFile_of (cwd e) fs]) = None \<Longrightarrow>
   \<exists>b. readAsset fs (BOOTSTRAP_SRC e) (BOOTSTRAP_SRC_ALT e) = Inr b \<and>
       fs' (cwd e @ [instructionFile_of (cwd e) fs]) = Some (File (trim b @ js ''\<newline>''))"
  by (auto simp: init_bootstrap_def Let_def existsSync_def readFileSync_def
           split: if_splits sum.splits option.splits prod.splits dest: write_same)

lemma step3_select_same:
  "init_bootstrap e fs = (r, fs', out) \<Longrightarrow>
   instructionFile_of (cwd e) fs' = instructionFile_of (cwd e) fs"
proof -
  assume run: "init_bootstrap e fs = (r, fs', out)"
  have other: "q \<noteq> cwd e @ [instructionFile_of (cwd e) fs] \<Longrightarrow> fs' q = fs q" for q
    using step3_other[OF run] by blast
  have mono: "fs q \<noteq> None \<Longrightarrow> fs' q \<noteq> None" for q
    using step3_mono[OF run] by blast
  show ?thesis
  proof (cases "fs (cwd e @ [js ''CLAUDE.md'']) = None")
    case False
    then have "fs' (cwd e @ [js ''CLAUDE.md'']) \<noteq> None" using mono by blast
    with False show ?thesis by (simp add: instructionFile_of_def existsSync_def)
  next
    case c: True
    show ?thesis
    proof (cases "fs (cwd e @ [js ''AGENTS.md'']) = None")
      case False
      then have sel: "instructionFile_of (cwd e) fs = js ''AGENTS.md''"
        using c by (simp add: instructionFile_of_def existsSync_def)
      have "fs' (cwd e @ [js ''CLAUDE.md'']) = None"
        using other[of "cwd e @ [js ''CLAUDE.md'']"] c sel by simp
      moreover have "fs' (cwd e @ [js ''AGENTS.md'']) \<noteq> None" using False mono by blast
      ultimately show ?thesis using sel by (simp add: instructionFile_of_def existsSync_def)
    next
      case True
      then have sel: "instructionFile_of (cwd e) fs = js ''CLAUDE.md''"
        using c by (simp add: instructionFile_of_def existsSync_def)
      have "fs' (cwd e @ [js ''AGENTS.md'']) = None"
        using other[of "cwd e @ [js ''AGENTS.md'']"] True sel by simp
      then show ?thesis using sel by (simp add: instructionFile_of_def existsSync_def)
    qed
  qed
qed

section \<open>Facts about the steps of \<open>init\<close>\<close>

lemma keeps_refl [simp]: "keeps fs fs a"
  by (simp add: keeps_def)

lemma keeps_trans: "keeps fs fs1 a \<Longrightarrow> keeps fs1 fs2 a \<Longrightarrow> keeps fs fs2 a"
  by (auto simp: keeps_def)

lemma readAsset_back:
  assumes "keeps fs fs' a" and "keeps fs fs' b" and "readAsset fs' a b = Inr c"
  shows "readAsset fs a b = Inr c"
  using assms
  by (auto simp: keeps_def readAsset_def resolveAsset_def existsSync_def readFileSync_def
           split: if_splits option.splits node.splits)

lemma step1_keeps:
  "init_priors_dir wd fs = (r, fs', out) \<Longrightarrow> x \<noteq> js ''.gitkeep'' \<Longrightarrow> keeps fs fs' (p @ [x])"
  unfolding keeps_def using step1_file_iff step1_mono by blast

lemma step2_keeps:
  "init_skill e g fs = (r, fs', out) \<Longrightarrow> x \<noteq> js ''SKILL.md'' \<Longrightarrow> keeps fs fs' (p @ [x])"
  unfolding keeps_def using step2_file_iff step2_mono by blast

lemma step2_keeps':
  "init_skill e g fs = (r, fs', out) \<Longrightarrow> x \<noteq> js ''knowledge-extraction'' \<Longrightarrow>
   keeps fs fs' (p @ [x, y])"
proof -
  assume run: "init_skill e g fs = (r, fs', out)" and x: "x \<noteq> js ''knowledge-extraction''"
  have "(fs' (p @ [x, y]) = Some (File c)) = (fs (p @ [x, y]) = Some (File c))" for c
  proof (cases "skillDir_of e g")
    case None
    with run show ?thesis by (auto simp: init_skill_def split: sum.splits prod.splits)
  next
    case (Some d)
    then obtain base where "d = base @ [js ''.claude'', js ''skills'', js ''knowledge-extraction'']"
      by (auto simp: skillDir_of_def split: option.splits)
    then have "p @ [x, y] \<noteq> d @ [js ''SKILL.md'']" using x by auto
    with step2_file_iff'[OF run Some] show ?thesis by blast
  qed
  then show ?thesis unfolding keeps_def using step2_mono[OF run] by blast
qed

lemma step3_keeps:
  "init_bootstrap e fs = (r, fs', out) \<Longrightarrow> x \<noteq> js ''CLAUDE.md'' \<Longrightarrow> x \<noteq> js ''AGENTS.md'' \<Longrightarrow>
   keeps fs fs' (p @ [x])"
proof -
  assume run: "init_bootstrap e fs = (r, fs', out)" and x: "x \<noteq> js ''CLAUDE.md''" "x \<noteq> js ''AGENTS.md''"
  have "p @ [x] \<noteq> cwd e @ [instructionFile_of (cwd e) fs]"
    using x instructionFile_cases[of "cwd e" fs] by auto
  then have "fs' (p @ [x]) = fs (p @ [x])" using step3_other[OF run] by blast
  then show ?thesis by (simp add: keeps_def)
qed

lemma init_cases [consumes 1, case_names step1 step2 step3]:
  assumes "init e args fs = (r, fs', out)"
  obtains
    o1 where "init_priors_dir (cwd e) fs = (r, fs', o1)" "r \<noteq> Completed"
  | fs1 o1 o2 where "init_priors_dir (cwd e) fs = (Completed, fs1, o1)"
      "init_skill e ((js ''--global'' \<in> set args)) fs1 = (r, fs', o2)" "r \<noteq> Completed"
  | fs1 o1 fs2 o2 o3 where "init_priors_dir (cwd e) fs = (Completed, fs1, o1)"
      "init_skill e ((js ''--global'' \<in> set args)) fs1 = (Completed, fs2, o2)"
      "init_bootstrap e fs2 = (r, fs', o3)"
      "set o2 \<subseteq> set out" "set o3 \<subseteq> set out"
proof -
  obtain r1 fs1 o1 where s1: "init_priors_dir (cwd e) fs = (r1, fs1, o1)"
    by (metis prod_cases3)
  obtain r2 fs2 o2 where s2: "init_skill e ((js ''--global'' \<in> set args)) fs1 = (r2, fs2, o2)"
    by (metis prod_cases3)
  obtain r3 fs3 o3 where s3: "init_bootstrap e fs2 = (r3, fs3, o3)"
    by (metis prod_cases3)
  show thesis
  proof (cases "r1 = Completed")
    case False
    with assms s1 have "r = r1" "fs' = fs1" by (auto simp: init_def and_then_def)
    with that(1) s1 False show ?thesis by blast
  next
    case r1: True
    show ?thesis
    proof (cases "r2 = Completed")
      case False
      with assms s1 s2 r1 have "r = r2" "fs' = fs2" by (auto simp: init_def and_then_def)
      with that(2) s1 s2 r1 False show ?thesis by blast
    next
      case r2: True
      with assms s1 s2 s3 r1 have "r = r3" "fs' = fs3" "set o2 \<subseteq> set out" "set o3 \<subseteq> set out"
        by (auto simp: init_def and_then_def split: if_splits)
      with that(3) s1 s2 s3 r1 r2 show ?thesis by blast
    qed
  qed
qed

lemma step3_not_dir:
  "init_bootstrap e fs = (Completed, fs', out) \<Longrightarrow>
   fs (cwd e @ [instructionFile_of (cwd e) fs]) \<noteq> Some Dir"
  by (auto simp: init_bootstrap_def Let_def existsSync_def readFileSync_def
           split: if_splits sum.splits option.splits prod.splits)

lemma step3_marked_out:
  "init_bootstrap e fs = (r, fs', out) \<Longrightarrow>
   fs (cwd e @ [instructionFile_of (cwd e) fs]) = Some (File existing) \<Longrightarrow>
   str_includes existing PRIORS_MARKER \<Longrightarrow> r = Completed \<Longrightarrow>
   out = [(Stdout, js ''  '' @ instructionFile_of (cwd e) fs @ js '' already has priors bootstrap'')]"
  by (auto simp: init_bootstrap_def Let_def existsSync_def readFileSync_def
           split: if_splits sum.splits option.splits prod.splits)

lemma step3_keeps_marked:
  assumes run: "init_bootstrap e fs = (r, fs', out)"
    and fl: "fs (cwd e @ [f]) = Some (File existing)" and m: "str_includes existing PRIORS_MARKER"
  shows "fs' (cwd e @ [f]) = Some (File existing)"
proof (cases "f = instructionFile_of (cwd e) fs")
  case True
  with step3_marked[OF run _ m] fl show ?thesis by simp
next
  case False
  then have "fs' (cwd e @ [f]) = fs (cwd e @ [f])" using step3_other[OF run] by simp
  with fl show ?thesis by simp
qed

lemma select_kept:
  assumes kc: "keeps fs fs2 (wd @ [js ''CLAUDE.md''])" and ka: "keeps fs fs2 (wd @ [js ''AGENTS.md''])"
    and fl: "fs (wd @ [instructionFile_of wd fs]) = Some (File c)"
    and nd: "fs2 (wd @ [instructionFile_of wd fs2]) \<noteq> Some Dir"
  shows "instructionFile_of wd fs2 = instructionFile_of wd fs"
proof (cases "fs (wd @ [js ''CLAUDE.md''])")
  case (Some n)
  then have "fs2 (wd @ [js ''CLAUDE.md'']) \<noteq> None" using kc by (auto simp: keeps_def)
  with Some show ?thesis by (simp add: instructionFile_of_def existsSync_def)
next
  case None
  then have sel: "instructionFile_of wd fs = js ''AGENTS.md''"
    using fl by (auto simp: instructionFile_of_def existsSync_def split: if_splits)
  with fl ka have a2: "fs2 (wd @ [js ''AGENTS.md'']) = Some (File c)" by (simp add: keeps_def)
  have "fs2 (wd @ [js ''CLAUDE.md'']) = None"
  proof (cases "fs2 (wd @ [js ''CLAUDE.md''])")
    case (Some n)
    then have s2: "instructionFile_of wd fs2 = js ''CLAUDE.md''"
      by (simp add: instructionFile_of_def existsSync_def)
    show ?thesis
    proof (cases n)
      case (File x)
      with Some kc None show ?thesis by (simp add: keeps_def)
    next
      case Dir
      with Some nd s2 show ?thesis by simp
    qed
  qed simp
  with a2 sel show ?thesis by (simp add: instructionFile_of_def existsSync_def)
qed

lemma steps12_keep:
  assumes s1: "init_priors_dir wd fs = (r1, fs1, o1)" and s2: "init_skill e g fs1 = (r2, fs2, o2)"
    and x: "x \<noteq> js ''.gitkeep''" "x \<noteq> js ''SKILL.md''"
  shows "keeps fs fs2 (p @ [x])"
  using keeps_trans[OF step1_keeps[OF s1 x(1)] step2_keeps[OF s2 x(2)]] .

lemma steps12_keep2:
  assumes s1: "init_priors_dir wd fs = (r1, fs1, o1)" and s2: "init_skill e g fs1 = (r2, fs2, o2)"
    and x: "x \<noteq> js ''.gitkeep''" "x \<noteq> js ''SKILL.md''"
  shows "keeps fs fs2 (p @ [y, x])"
  using steps12_keep[OF s1 s2 x, of "p @ [y]"] by simp

lemma select_after_steps12:
  assumes s1: "init_priors_dir (cwd e) fs = (r1, fs1, o1)" and s2: "init_skill e g fs1 = (r2, fs2, o2)"
    and s3: "init_bootstrap e fs2 = (Completed, fs3, o3)"
    and fl: "fs (cwd e @ [instructionFile_of (cwd e) fs]) = Some (File c)"
  shows "instructionFile_of (cwd e) fs2 = instructionFile_of (cwd e) fs"
    and "fs2 (cwd e @ [instructionFile_of (cwd e) fs2]) = Some (File c)"
proof -
  have kc: "keeps fs fs2 (cwd e @ [js ''CLAUDE.md''])" and ka: "keeps fs fs2 (cwd e @ [js ''AGENTS.md''])"
    using steps12_keep[OF s1 s2] by simp_all
  show sel: "instructionFile_of (cwd e) fs2 = instructionFile_of (cwd e) fs"
    using select_kept[OF kc ka fl step3_not_dir[OF s3]] .
  have "keeps fs fs2 (cwd e @ [instructionFile_of (cwd e) fs])"
    using kc ka instructionFile_cases[of "cwd e" fs] by auto
  with fl sel show "fs2 (cwd e @ [instructionFile_of (cwd e) fs2]) = Some (File c)"
    by (simp add: keeps_def)
qed

lemma dropWhile_keeps_marked:
  assumes "m \<noteq> []" and "\<not> P (hd m)"
  shows "\<exists>pre'. dropWhile P (pre @ m @ post) = pre' @ m @ post"
proof (cases "\<forall>x\<in>set pre. P x")
  case True
  then have "dropWhile P (pre @ m @ post) = dropWhile P (m @ post)"
    by (simp add: dropWhile_append)
  also have "\<dots> = m @ post" using assms by (cases m) auto
  finally have "dropWhile P (pre @ m @ post) = [] @ m @ post" by simp
  then show ?thesis by blast
next
  case False
  then obtain x where "x \<in> set pre" "\<not> P x" by blast
  then have "dropWhile P (pre @ m @ post) = dropWhile P pre @ m @ post"
    by (rule dropWhile_append1)
  then show ?thesis by blast
qed

lemma includes_trim:
  assumes inc: "str_includes s m" and ne: "m \<noteq> []"
    and h: "\<not> is_white_space (hd m)" and l: "\<not> is_white_space (last m)"
  shows "str_includes (trim s) m"
proof -
  from inc obtain pre post where s: "s = pre @ m @ post" unfolding str_includes_iff by blast
  obtain pre' where a: "trimStart s = pre' @ m @ post"
    unfolding trimStart_def s
    using dropWhile_keeps_marked[of m is_white_space pre post] ne h by blast
  have "rev m \<noteq> []" "\<not> is_white_space (hd (rev m))" using ne l by (simp_all add: hd_rev)
  from dropWhile_keeps_marked[of "rev m" is_white_space "rev post" "rev pre'"] this
  obtain q where "dropWhile is_white_space (rev post @ rev m @ rev pre') = q @ rev m @ rev pre'"
    by blast
  then have "trimEnd (pre' @ m @ post) = pre' @ m @ rev q"
    by (simp add: trimEnd_def)
  then show ?thesis unfolding trim_def a str_includes_iff by blast
qed

lemma marker_in_trim:
  "str_includes b PRIORS_MARKER \<Longrightarrow> str_includes (trim b) PRIORS_MARKER"
  by (rule includes_trim) (simp_all add: PRIORS_MARKER_def is_white_space_def is_line_terminator_def)

lemma readAsset_content:
  "readAsset fs a b = Inr c \<Longrightarrow> fs a = Some (File c) \<or> fs b = Some (File c)"
  by (auto simp: readAsset_def resolveAsset_def existsSync_def readFileSync_def
           split: if_splits option.splits node.splits)

lemma step3_post_marked:
  assumes run: "init_bootstrap e fs = (Completed, fs', out)"
    and boot: "\<And>c. fs (BOOTSTRAP_SRC e) = Some (File c) \<or> fs (BOOTSTRAP_SRC_ALT e) = Some (File c)
                 \<Longrightarrow> str_includes c PRIORS_MARKER"
  shows "\<exists>content. fs' (cwd e @ [instructionFile_of (cwd e) fs]) = Some (File content)
            \<and> str_includes content PRIORS_MARKER"
proof (cases "fs (cwd e @ [instructionFile_of (cwd e) fs])")
  case None
  from step3_created[OF run None] obtain b
    where b: "readAsset fs (BOOTSTRAP_SRC e) (BOOTSTRAP_SRC_ALT e) = Inr b"
      and new: "fs' (cwd e @ [instructionFile_of (cwd e) fs]) = Some (File (trim b @ js ''\<newline>''))"
    by blast
  have "str_includes (trim b) PRIORS_MARKER"
    using marker_in_trim boot readAsset_content[OF b] by blast
  then have "str_includes (trim b @ js ''\<newline>'') PRIORS_MARKER"
    unfolding str_includes_iff by (metis append.assoc)
  with new show ?thesis by blast
next
  case (Some n)
  show ?thesis
  proof (cases n)
    case Dir
    with Some step3_not_dir[OF run] show ?thesis by simp
  next
    case (File existing)
    show ?thesis
    proof (cases "str_includes existing PRIORS_MARKER")
      case True
      with step3_marked[OF run _ True] Some File show ?thesis by simp
    next
      case False
      from step3_appended[OF run _ False] Some File obtain b
        where b: "readAsset fs (BOOTSTRAP_SRC e) (BOOTSTRAP_SRC_ALT e) = Inr b"
          and new: "fs' (cwd e @ [instructionFile_of (cwd e) fs]) =
             Some (File (trimEnd existing @ js ''\<newline>\<newline>'' @ trim b @ js ''\<newline>''))"
        by auto
      have "str_includes (trim b) PRIORS_MARKER"
        using marker_in_trim boot readAsset_content[OF b] by blast
      then obtain u v where "trim b = u @ PRIORS_MARKER @ v" unfolding str_includes_iff by blast
      then have "trimEnd existing @ js ''\<newline>\<newline>'' @ trim b @ js ''\<newline>''
          = (trimEnd existing @ js ''\<newline>\<newline>'' @ u) @ PRIORS_MARKER @ (v @ js ''\<newline>'')"
        by simp
      then have "str_includes (trimEnd existing @ js ''\<newline>\<newline>'' @ trim b @ js ''\<newline>'') PRIORS_MARKER"
        unfolding str_includes_iff by blast
      with new show ?thesis by blast
    qed
  qed
qed

text \<open>Running a step again where it has run.\<close>

lemma step2_settled:
  assumes wf: "wf_fs fs" and d: "skillDir_of e g = Some d" "fs d \<noteq> None"
    and dest: "fs (d @ [js ''SKILL.md'']) = Some (File content)"
    and asset: "\<And>c. readAsset fs (SKILL_SRC e) (SKILL_SRC_ALT e) = Inr c \<Longrightarrow> c = content"
    and run: "init_skill e g fs = (r, fs', out)"
  shows "fs' = fs"
proof (cases "r = Completed")
  case False
  with step2_fail[OF run wf] show ?thesis by simp
next
  case True
  with step2_post run obtain c where "readAsset fs (SKILL_SRC e) (SKILL_SRC_ALT e) = Inr c"
    by blast
  with asset have "readAsset fs (SKILL_SRC e) (SKILL_SRC_ALT e) = Inr content" by simp
  from step2_stable[OF this d dest] run show ?thesis by simp
qed

lemma step3_settled:
  assumes fl: "fs (cwd e @ [instructionFile_of (cwd e) fs]) = Some (File content)"
    and m: "str_includes content PRIORS_MARKER"
    and run: "init_bootstrap e fs = (r, fs', out)"
  shows "fs' = fs"
  using step3_marked[OF run fl m] .

lemma init_fs_step1:
  "init_priors_dir (cwd e) fs = (r1, fs1, o1) \<Longrightarrow> r1 \<noteq> Completed \<Longrightarrow>
   fst (snd (init e args fs)) = fs1"
  by (simp add: init_def and_then_def)

lemma init_fs_step2:
  "init_priors_dir (cwd e) fs = (Completed, fs1, o1) \<Longrightarrow>
   init_skill e ((js ''--global'' \<in> set args)) fs1 = (r2, fs2, o2) \<Longrightarrow> r2 \<noteq> Completed \<Longrightarrow>
   fst (snd (init e args fs)) = fs2"
  by (simp add: init_def and_then_def)

lemma init_fs_step3:
  "init_priors_dir (cwd e) fs = (Completed, fs1, o1) \<Longrightarrow>
   init_skill e ((js ''--global'' \<in> set args)) fs1 = (Completed, fs2, o2) \<Longrightarrow>
   init_bootstrap e fs2 = (r3, fs3, o3) \<Longrightarrow>
   fst (snd (init e args fs)) = fs3"
  by (simp add: init_def and_then_def)

lemma skill_asset_kept_step2:
  assumes run: "init_skill e g fs = (r, fs', out)"
  shows "keeps fs fs' (SKILL_SRC e)" "keeps fs fs' (SKILL_SRC_ALT e)"
  unfolding SKILL_SRC_def SKILL_SRC_ALT_def
  by (rule step2_keeps'[OF run]; simp)+

lemma skill_asset_kept_step3:
  assumes run: "init_bootstrap e fs = (r, fs', out)"
  shows "keeps fs fs' (SKILL_SRC e)" "keeps fs fs' (SKILL_SRC_ALT e)"
proof -
  have "keeps fs fs' (p @ [y, js ''SKILL.md''])" for p y
    using step3_keeps[OF run, of "js ''SKILL.md''" "p @ [y]"] by simp
  then show "keeps fs fs' (SKILL_SRC e)" "keeps fs fs' (SKILL_SRC_ALT e)"
    unfolding SKILL_SRC_def SKILL_SRC_ALT_def by blast+
qed

section \<open>Facts about the patterns of \<open>status\<close>\<close>

lemma includes_Cons: "str_includes cs m \<Longrightarrow> str_includes (c # cs) m"
  by simp








lemma terminator_is_space: "is_line_terminator c \<Longrightarrow> is_white_space c"
  by (simp add: is_white_space_def)










lemma status_loop_result:
  "\<forall>f\<in>set files. is_file (fs (d @ [f])) \<Longrightarrow>
   status_loop fs d files t =
     (Completed,
      foldl (+) t (map (\<lambda>f. entries (parse_prior f (file_text fs (d @ [f])))) files),
      concat (map (\<lambda>f. report_lines f (parse_prior f (file_text fs (d @ [f])))) files))"
proof (induction files arbitrary: t)
  case Nil
  then show ?case by simp
next
  case (Cons f files)
  then obtain content where c: "fs (d @ [f]) = Some (File content)"
    by (auto simp: is_file_def split: option.splits node.splits)
  then have rd: "readFileSync fs (d @ [f]) = Inr content" by (simp add: readFileSync_def)
  from c have ft: "file_text fs (d @ [f]) = content" by (simp add: file_text_def)
  from Cons.prems have "\<forall>f\<in>set files. is_file (fs (d @ [f]))" by simp
  from Cons.IH[OF this, of "t + entries (parse_prior f content)"] rd ft
  show ?case by (simp add: Let_def)
qed

lemma status_loop_completes:
  "\<forall>f\<in>set files. is_file (fs (d @ [f])) \<Longrightarrow> fst (status_loop fs d files t) = Completed"
  by (simp add: status_loop_result)




lemma lazy_until_Some:
  "lazy_until lit s = Some fm \<Longrightarrow> \<exists>rest. s = fm @ lit @ rest"
proof (induction s arbitrary: fm)
  case Nil
  then show ?case by (auto split: if_splits)
next
  case (Cons c cs)
  show ?case
  proof (cases "prefix lit (c # cs)")
    case True
    with Cons.prems have "fm = []" by simp
    with True show ?thesis by (auto simp: prefix_def)
  next
    case False
    with Cons.prems obtain fm' where "lazy_until lit cs = Some fm'" "fm = c # fm'" by auto
    with Cons.IH[of fm'] show ?thesis by auto
  qed
qed

lemma frontmatter_Some:
  assumes "match_frontmatter content = Some fm"
  shows "\<exists>rest. content = js ''---\<newline>'' @ fm @ js ''\<newline>---'' @ rest"
proof -
  from assms have p: "prefix (js ''---\<newline>'') content"
    and l: "lazy_until (js ''\<newline>---'') (drop 4 content) = Some fm"
    by (auto simp: match_frontmatter_def split: if_splits)
  from lazy_until_Some[OF l] obtain rest where r: "drop 4 content = fm @ js ''\<newline>---'' @ rest" by blast
  from p obtain tl where "content = js ''---\<newline>'' @ tl" by (auto simp: prefix_def)
  with r have "content = js ''---\<newline>'' @ fm @ js ''\<newline>---'' @ rest" by simp
  then show ?thesis by blast
qed

lemma replace_first_extension:
  assumes "ext \<noteq> []" and "\<And>pre post. stem @ ext = pre @ ext @ post \<Longrightarrow> post = []"
  shows "replace_first (stem @ ext) ext [] = stem"
  using assms(2)
proof (induction stem)
  case Nil
  then show ?case using assms(1) by (cases ext) auto
next
  case (Cons c cs)
  have "\<not> prefix ext ((c # cs) @ ext)"
  proof
    assume "prefix ext ((c # cs) @ ext)"
    then obtain post where eq: "(c # cs) @ ext = [] @ ext @ post" by (auto simp: prefix_def)
    with Cons.prems have "post = []" by blast
    with eq have "length ((c # cs) @ ext) = length ext" by simp
    then show False by simp
  qed
  moreover have "replace_first (cs @ ext) ext [] = cs"
  proof (rule Cons.IH)
    fix pre post assume "cs @ ext = pre @ ext @ post"
    then have "(c # cs) @ ext = (c # pre) @ ext @ post" by simp
    then show "post = []" by (rule Cons.prems)
  qed
  ultimately show ?case by simp
qed

lemma only_at_end:
  assumes "\<not> str_includes (butlast s) m" and "s = pre @ m @ post"
  shows "post = []"
proof (rule ccontr)
  assume "post \<noteq> []"
  with assms(2) have "butlast s = pre @ m @ butlast post" by (simp add: butlast_append)
  then have "str_includes (butlast s) m" unfolding str_includes_iff by blast
  with assms(1) show False by simp
qed

section \<open>Facts about how a run ends\<close>

lemma status_fs: "fst (snd (status e fs)) = fs"
  by (simp add: status_def Let_def split: prod.splits)












section \<open>Facts about the steps of \<open>install.sh\<close>\<close>

lemma mkdir_p_Some_iff:
  "mkdir_p fs p = Some fs' \<longleftrightarrow>
   (\<forall>q. prefix q p \<longrightarrow> \<not> is_file (fs q)) \<and> fs' = (\<lambda>q. if prefix q p then Some Dir else fs q)"
  by (auto simp: mkdir_p_def list_ex_iff)

lemma mkdir_p_other: "mkdir_p fs p = Some fs' \<Longrightarrow> \<not> prefix q p \<Longrightarrow> fs' q = fs q"
  by (auto simp: mkdir_p_Some_iff)

lemma mkdir_p_file_iff:
  "mkdir_p fs p = Some fs' \<Longrightarrow> (fs' q = Some (File c)) = (fs q = Some (File c))"
  by (auto simp: mkdir_p_Some_iff is_file_def)

lemma mkdir_p_target: "mkdir_p fs p = Some fs' \<Longrightarrow> fs' p = Some Dir"
  by (auto simp: mkdir_p_Some_iff)

lemma touch_other: "touch fs p = Some fs' \<Longrightarrow> q \<noteq> p \<Longrightarrow> fs' q = fs q"
  by (auto simp: touch_def split: option.splits if_splits)

lemma redirect_to_other: "redirect_to fs p text = Some fs' \<Longrightarrow> q \<noteq> p \<Longrightarrow> fs' q = fs q"
  by (auto simp: redirect_to_def split: option.splits node.splits if_splits)

lemma redirect_to_same: "redirect_to fs p text = Some fs' \<Longrightarrow> fs' p = Some (File text)"
  by (auto simp: redirect_to_def split: option.splits node.splits if_splits)

lemma append_to_other: "append_to fs p text = Some fs' \<Longrightarrow> q \<noteq> p \<Longrightarrow> fs' q = fs q"
  by (auto simp: append_to_def split: option.splits node.splits if_splits)

text \<open>What each step of the script leaves alone.\<close>

lemma sh1_other:
  "sh_priors_dir wd fs = (r, fs', out) \<Longrightarrow> \<not> prefix q (wd @ [js ''.claude'', js ''priors'', js ''.gitkeep'']) \<Longrightarrow>
   fs' q = fs q"
proof -
  assume run: "sh_priors_dir wd fs = (r, fs', out)"
    and np: "\<not> prefix q (wd @ [js ''.claude'', js ''priors'', js ''.gitkeep''])"
  have "prefix (wd @ [js ''.claude'', js ''priors'']) (wd @ [js ''.claude'', js ''priors'', js ''.gitkeep''])"
    by simp
  with np have a: "\<not> prefix q (wd @ [js ''.claude'', js ''priors''])"
    using prefix_order.trans by blast
  from np have b: "q \<noteq> wd @ [js ''.claude'', js ''priors'', js ''.gitkeep'']" by auto
  show ?thesis
    using run a b
    by (auto simp: sh_priors_dir_def mkdir_p_other touch_other split: if_splits option.splits)
qed

lemma sh1_file:
  "sh_priors_dir wd fs = (r, fs', out) \<Longrightarrow> x \<noteq> js ''.gitkeep'' \<Longrightarrow>
   (fs' (p @ [x]) = Some (File c)) = (fs (p @ [x]) = Some (File c))"
  by (auto simp: sh_priors_dir_def mkdir_p_file_iff touch_other split: if_splits option.splits)

lemma sh1_result:
  assumes run: "sh_priors_dir wd fs = (Completed, fs', out)" and wf: "wf_fs fs"
  shows "fs' (wd @ [js ''.claude'', js ''priors'']) = Some Dir"
    and "fs' (wd @ [js ''.claude'', js ''priors'', js ''.gitkeep'']) =
           (if fs (wd @ [js ''.claude'', js ''priors'']) = Some Dir
            then fs (wd @ [js ''.claude'', js ''priors'', js ''.gitkeep'']) else Some (File []))"
    and "\<not> is_file (fs (wd @ [js ''.claude'', js ''priors'']))"
proof -
  let ?pd = "wd @ [js ''.claude'', js ''priors'']"
  let ?gk = "wd @ [js ''.claude'', js ''priors'', js ''.gitkeep'']"
  show "\<not> is_file (fs ?pd)"
    using run by (auto simp: sh_priors_dir_def test_d_def mkdir_p_Some_iff is_file_def
        split: if_splits option.splits)
  show "fs' ?pd = Some Dir"
    using run by (auto simp: sh_priors_dir_def test_d_def touch_other
        split: if_splits option.splits dest!: mkdir_p_target)
  show "fs' ?gk = (if fs ?pd = Some Dir then fs ?gk else Some (File []))"
  proof (cases "fs ?pd = Some Dir")
    case True
    with run show ?thesis by (simp add: sh_priors_dir_def test_d_def)
  next
    case False
    then obtain fs1 where mk: "mkdir_p fs ?pd = Some fs1" and t: "touch fs1 ?gk = Some fs'"
      using run by (auto simp: sh_priors_dir_def test_d_def split: option.splits)
    have "\<not> is_file (fs ?pd)" using mk by (auto simp: mkdir_p_Some_iff)
    with False have "fs ?pd = None" by (cases "fs ?pd"; simp add: is_file_def split: node.splits)
    then have "fs (?pd @ [js ''.gitkeep'']) = None" using wf wf_child_None[of fs ?pd] by simp
    then have "fs1 ?gk = None" using mkdir_p_other[OF mk, of ?gk] by simp
    moreover have "fs1 (butlast ?gk) = Some Dir" using mkdir_p_target[OF mk] by (simp add: butlast_append)
    ultimately have "fs' ?gk = Some (File [])" using t by (auto simp: touch_def)
    with False show ?thesis by simp
  qed
qed

lemma sh2_other:
  "sh_skill e fs = (r, fs', out) \<Longrightarrow>
   \<not> prefix q (pwd e @ [js ''.claude'', js ''skills'', js ''knowledge-extraction'', js ''SKILL.md'']) \<Longrightarrow>
   fs' q = fs q"
proof -
  assume run: "sh_skill e fs = (r, fs', out)"
    and np: "\<not> prefix q (pwd e @ [js ''.claude'', js ''skills'', js ''knowledge-extraction'', js ''SKILL.md''])"
  have "prefix (pwd e @ [js ''.claude'', js ''skills'', js ''knowledge-extraction''])
          (pwd e @ [js ''.claude'', js ''skills'', js ''knowledge-extraction'', js ''SKILL.md''])"
    by simp
  with np have a: "\<not> prefix q (pwd e @ [js ''.claude'', js ''skills'', js ''knowledge-extraction''])"
    using prefix_order.trans by blast
  from np have b: "q \<noteq> pwd e @ [js ''.claude'', js ''skills'', js ''knowledge-extraction'', js ''SKILL.md'']"
    by auto
  show ?thesis
    using run a b
    by (auto simp: sh_skill_def Let_def mkdir_p_other redirect_to_other split: if_splits option.splits)
qed

lemma sh2_file:
  "sh_skill e fs = (r, fs', out) \<Longrightarrow> x \<noteq> js ''SKILL.md'' \<Longrightarrow>
   (fs' (p @ [x]) = Some (File c)) = (fs (p @ [x]) = Some (File c))"
  by (auto simp: sh_skill_def Let_def mkdir_p_file_iff redirect_to_other split: if_splits option.splits)

lemma sh2_result:
  assumes run: "sh_skill e fs = (Completed, fs', out)"
  shows "fs' (pwd e @ [js ''.claude'', js ''skills'', js ''knowledge-extraction'', js ''SKILL.md'']) =
           (if is_file (fs (pwd e @ [js ''.claude'', js ''skills'', js ''knowledge-extraction'', js ''SKILL.md'']))
            then fs (pwd e @ [js ''.claude'', js ''skills'', js ''knowledge-extraction'', js ''SKILL.md''])
            else Some (File (skill_heredoc e)))"
proof -
  let ?d = "pwd e @ [js ''.claude'', js ''skills'', js ''knowledge-extraction'']"
  let ?dest = "pwd e @ [js ''.claude'', js ''skills'', js ''knowledge-extraction'', js ''SKILL.md'']"
  from run obtain fs1 where mk: "mkdir_p fs ?d = Some fs1"
    by (auto simp: sh_skill_def Let_def split: option.splits)
  have same: "fs1 ?dest = fs ?dest" using mkdir_p_other[OF mk, of ?dest] by simp
  show ?thesis
  proof (cases "is_file (fs ?dest)")
    case True
    with run mk same show ?thesis by (simp add: sh_skill_def Let_def test_f_def)
  next
    case False
    with run mk same obtain "redirect_to fs1 ?dest (skill_heredoc e) = Some fs'"
      by (auto simp: sh_skill_def Let_def test_f_def split: option.splits)
    from redirect_to_same[OF this] False show ?thesis by simp
  qed
qed

lemma INSTRUCTION_FILE_cases:
  "INSTRUCTION_FILE wd fs = js ''CLAUDE.md'' \<or> INSTRUCTION_FILE wd fs = js ''AGENTS.md''"
  by (simp add: INSTRUCTION_FILE_def)

lemma sh3_other:
  "sh_bootstrap e fs = (r, fs', out) \<Longrightarrow> q \<noteq> pwd e @ [INSTRUCTION_FILE (pwd e) fs] \<Longrightarrow> fs' q = fs q"
  by (auto simp: sh_bootstrap_def Let_def append_to_other redirect_to_other
           split: if_splits option.splits)

lemma sh4_other:
  "sh_gitignore e shared fs = (r, fs', out) \<Longrightarrow> q \<noteq> pwd e @ [js ''.gitignore''] \<Longrightarrow> fs' q = fs q"
  by (auto simp: sh_gitignore_def append_to_other redirect_to_other split: if_splits option.splits)

lemma install_sh_cases:
  assumes "install_sh e args fs = (Completed, fs', out)"
  obtains sh fs1 o1 fs2 o2 fs3 o3 o4 where
    "parse_args args False = Some sh"
    "sh_priors_dir (pwd e) fs = (Completed, fs1, o1)"
    "sh_skill e fs1 = (Completed, fs2, o2)"
    "sh_bootstrap e fs2 = (Completed, fs3, o3)"
    "sh_gitignore e sh fs3 = (Completed, fs', o4)"
proof -
  from assms obtain sh where p: "parse_args args False = Some sh"
    by (cases "parse_args args False") (auto simp: install_sh_def)
  obtain r1 fs1 o1 where s1: "sh_priors_dir (pwd e) fs = (r1, fs1, o1)" by (metis prod_cases3)
  obtain r2 fs2 o2 where s2: "sh_skill e fs1 = (r2, fs2, o2)" by (metis prod_cases3)
  obtain r3 fs3 o3 where s3: "sh_bootstrap e fs2 = (r3, fs3, o3)" by (metis prod_cases3)
  obtain r4 fs4 o4 where s4: "sh_gitignore e sh fs3 = (r4, fs4, o4)" by (metis prod_cases3)
  have r1: "r1 = Completed" using assms p s1 by (auto simp: install_sh_def and_then_def split: if_splits)
  have r2: "r2 = Completed" using assms p s1 s2 r1
    by (auto simp: install_sh_def and_then_def split: if_splits)
  have r3: "r3 = Completed" using assms p s1 s2 s3 r1 r2
    by (auto simp: install_sh_def and_then_def split: if_splits)
  have r4: "r4 = Completed \<and> fs4 = fs'" using assms p s1 s2 s3 s4 r1 r2 r3
    by (auto simp: install_sh_def and_then_def split: if_splits)
  with that p s1 s2 s3 s4 r1 r2 r3 show thesis by blast
qed

lemma bre_at_Lit: "bre_at (map Lit m) s \<longleftrightarrow> prefix m s"
proof (induction m arbitrary: s)
  case Nil
  then show ?case by simp
next
  case (Cons c m)
  then show ?case by (cases s) auto
qed

lemma bre_in_line_Lit: "bre_in_line (map Lit m) s \<longleftrightarrow> str_includes s m"
  by (induction s) (auto simp: bre_at_Lit)

lemma lines_of_not_Nil [simp]: "lines_of s \<noteq> []"
  by (induction s) (auto split: list.splits)

lemma lines_of_first:
  "lines_of s = l # ls \<Longrightarrow> 10 \<notin> set l \<and> (s = l \<and> ls = [] \<or> (\<exists>rest. s = l @ 10 # rest \<and> ls = lines_of rest))"
proof (induction s arbitrary: l ls)
  case Nil
  then show ?case by simp
next
  case (Cons c cs)
  show ?case
  proof (cases "c = 10")
    case True
    with Cons.prems show ?thesis by auto
  next
    case False
    obtain l' ls' where l': "lines_of cs = l' # ls'" by (cases "lines_of cs") simp_all
    with Cons.prems False have "l = c # l'" "ls = ls'" by simp_all
    with Cons.IH[OF l'] False show ?thesis by auto
  qed
qed

lemma prefix_no_newline:
  assumes "10 \<notin> set m" and "prefix m (l @ 10 # rest)"
  shows "prefix m l"
proof -
  from assms(2) obtain t where "l @ 10 # rest = m @ t" by (auto simp: prefix_def)
  then obtain us where "(l = m @ us \<and> us @ 10 # rest = t) \<or> (l @ us = m \<and> 10 # rest = us @ t)"
    unfolding append_eq_append_conv2 by blast
  then show ?thesis
  proof
    assume "l = m @ us \<and> us @ 10 # rest = t"
    then show ?thesis by auto
  next
    assume h: "l @ us = m \<and> 10 # rest = us @ t"
    show ?thesis
    proof (cases us)
      case Nil
      with h show ?thesis by auto
    next
      case (Cons u us')
      with h have "u = 10" "u \<in> set m" by auto
      with assms(1) show ?thesis by simp
    qed
  qed
qed

lemma includes_lines:
  assumes "m \<noteq> []" and "10 \<notin> set m"
  shows "list_ex (\<lambda>l. str_includes l m) (lines_of s) \<longleftrightarrow> str_includes s m"
proof (induction s)
  case Nil
  then show ?case by simp
next
  case (Cons c cs)
  show ?case
  proof (cases "c = 10")
    case True
    have "\<not> prefix m (10 # cs)" using assms by (cases m) auto
    with True Cons assms(1) show ?thesis by simp
  next
    case False
    obtain l ls where l: "lines_of cs = l # ls" by (cases "lines_of cs") simp_all
    from lines_of_first[OF l] have "prefix m (c # cs) \<longleftrightarrow> prefix m (c # l)"
    proof (elim conjE disjE exE)
      fix rest assume "cs = l @ 10 # rest"
      then have "prefix m (c # cs) \<Longrightarrow> prefix m (c # l)"
        using prefix_no_newline[OF assms(2), of "c # l" rest] by simp
      moreover have "prefix m (c # l) \<Longrightarrow> prefix m (c # cs)"
        using \<open>cs = l @ 10 # rest\<close> by (metis Cons_prefix_Cons prefix_order.trans prefixI append_Cons)
      ultimately show ?thesis by blast
    qed simp
    with Cons l False show ?thesis by auto
  qed
qed

lemma grep_q_marker: "grep_q SH_PRIORS_MARKER text \<longleftrightarrow> str_includes text PRIORS_MARKER"
proof -
  have m: "SH_PRIORS_MARKER = map Lit PRIORS_MARKER"
    by (simp add: SH_PRIORS_MARKER_def PRIORS_MARKER_def)
  have "grep_q SH_PRIORS_MARKER text \<longleftrightarrow> list_ex (\<lambda>l. str_includes l PRIORS_MARKER) (lines_of text)"
    unfolding grep_q_def m bre_in_line_Lit ..
  also have "\<dots> \<longleftrightarrow> str_includes text PRIORS_MARKER"
    by (rule includes_lines) (simp_all add: PRIORS_MARKER_def)
  finally show ?thesis .
qed

lemma sh3_result:
  assumes "sh_bootstrap e fs = (Completed, fs', out)"
  shows "fs' (pwd e @ [INSTRUCTION_FILE (pwd e) fs]) =
     Some (File
       (case fs (pwd e @ [INSTRUCTION_FILE (pwd e) fs]) of
          Some (File c) \<Rightarrow>
            if str_includes c PRIORS_MARKER then c
            else c @ js ''\<newline>'' @ BOOTSTRAP_TEXT @ js ''\<newline>''
        | Some Dir \<Rightarrow> BOOTSTRAP_TEXT @ js ''\<newline>''
        | None \<Rightarrow> BOOTSTRAP_TEXT @ js ''\<newline>''))"
    and "fs (pwd e @ [INSTRUCTION_FILE (pwd e) fs]) \<noteq> Some Dir"
  using assms
  by (auto simp: sh_bootstrap_def Let_def test_f_def is_file_def grep_q_marker file_text_def
        append_to_def redirect_to_def
      split: if_splits option.splits node.splits)

lemma step1_other:
  "init_priors_dir wd fs = (r, fs', out) \<Longrightarrow>
   \<not> prefix q (wd @ [js ''.claude'', js ''priors'', js ''.gitkeep'']) \<Longrightarrow> fs' q = fs q"
proof -
  assume run: "init_priors_dir wd fs = (r, fs', out)"
    and np: "\<not> prefix q (wd @ [js ''.claude'', js ''priors'', js ''.gitkeep''])"
  have "prefix (wd @ [js ''.claude'', js ''priors'']) (wd @ [js ''.claude'', js ''priors'', js ''.gitkeep''])"
    by simp
  with np have a: "\<not> prefix q (wd @ [js ''.claude'', js ''priors''])"
    using prefix_order.trans by blast
  from np have b: "q \<noteq> wd @ [js ''.claude'', js ''priors'', js ''.gitkeep'']" by auto
  show ?thesis
    using run a b
    by (auto simp: init_priors_dir_def Let_def mkdir_other write_other split: if_splits sum.splits)
qed

lemma step1_result:
  assumes run: "init_priors_dir wd fs = (Completed, fs', out)" and wf: "wf_fs fs"
  shows "fs' (wd @ [js ''.claude'', js ''priors'']) =
           (if fs (wd @ [js ''.claude'', js ''priors'']) = None then Some Dir
            else fs (wd @ [js ''.claude'', js ''priors'']))"
    and "fs' (wd @ [js ''.claude'', js ''priors'', js ''.gitkeep'']) =
           (if fs (wd @ [js ''.claude'', js ''priors'']) = None then Some (File [])
            else fs (wd @ [js ''.claude'', js ''priors'', js ''.gitkeep'']))"
proof -
  let ?pd = "wd @ [js ''.claude'', js ''priors'']"
  let ?gk = "wd @ [js ''.claude'', js ''priors'', js ''.gitkeep'']"
  show "fs' ?pd = (if fs ?pd = None then Some Dir else fs ?pd)"
    using run by (auto simp: init_priors_dir_def Let_def existsSync_def write_other
        split: if_splits sum.splits dest!: mkdir_target)
  show "fs' ?gk = (if fs ?pd = None then Some (File []) else fs ?gk)"
    using run by (auto simp: init_priors_dir_def Let_def existsSync_def
        split: if_splits sum.splits dest!: write_same)
qed

lemma step2_other:
  "init_skill e g fs = (r, fs', out) \<Longrightarrow> skillDir_of e g = Some d \<Longrightarrow>
   \<not> prefix q (d @ [js ''SKILL.md'']) \<Longrightarrow> fs' q = fs q"
proof -
  assume run: "init_skill e g fs = (r, fs', out)" and d: "skillDir_of e g = Some d"
    and np: "\<not> prefix q (d @ [js ''SKILL.md''])"
  have "prefix d (d @ [js ''SKILL.md''])" by simp
  with np have a: "\<not> prefix q d" using prefix_order.trans by blast
  from np have b: "q \<noteq> d @ [js ''SKILL.md'']" by auto
  show ?thesis
    using run d a b
    by (auto simp: init_skill_def Let_def mkdir_other write_other
        split: if_splits sum.splits prod.splits)
qed

lemma step3_result:
  assumes "init_bootstrap e fs = (Completed, fs', out)"
  shows "\<exists>b. readAsset fs (BOOTSTRAP_SRC e) (BOOTSTRAP_SRC_ALT e) = Inr b \<and>
    fs' (cwd e @ [instructionFile_of (cwd e) fs]) =
     Some (File
       (case fs (cwd e @ [instructionFile_of (cwd e) fs]) of
          Some (File c) \<Rightarrow>
            if str_includes c PRIORS_MARKER then c
            else trimEnd c @ js ''\<newline>\<newline>'' @ trim b @ js ''\<newline>''
        | Some Dir \<Rightarrow> trim b @ js ''\<newline>''
        | None \<Rightarrow> trim b @ js ''\<newline>''))"
proof (cases "fs (cwd e @ [instructionFile_of (cwd e) fs])")
  case None
  with step3_created[OF assms None] show ?thesis by auto
next
  case (Some n)
  show ?thesis
  proof (cases n)
    case Dir
    with Some step3_not_dir[OF assms] show ?thesis by simp
  next
    case (File c)
    show ?thesis
    proof (cases "str_includes c PRIORS_MARKER")
      case True
      from assms obtain b where "readAsset fs (BOOTSTRAP_SRC e) (BOOTSTRAP_SRC_ALT e) = Inr b"
        by (auto simp: init_bootstrap_def split: sum.splits prod.splits)
      moreover have "fs' = fs" using step3_marked[OF assms _ True] Some File by simp
      ultimately show ?thesis using Some File True by simp
    next
      case False
      with step3_appended[OF assms _ False] Some File show ?thesis by auto
    qed
  qed
qed

subsection \<open>Both implementations, step by step\<close>

lemma sh4_result:
  assumes "sh_gitignore e shared fs = (Completed, fs', out)"
  shows "fs' (pwd e @ [js ''.gitignore'']) =
     (if shared then fs (pwd e @ [js ''.gitignore''])
      else Some (File
       (case fs (pwd e @ [js ''.gitignore'']) of
          Some (File c) \<Rightarrow>
            if grep_q GITIGNORE_PATTERN c then c
            else c @ js ''\<newline># Agent priors (local knowledge)\<newline>.claude/priors/\<newline>''
        | Some Dir \<Rightarrow> js ''# Agent priors (local knowledge)\<newline>.claude/priors/\<newline>''
        | None \<Rightarrow> js ''# Agent priors (local knowledge)\<newline>.claude/priors/\<newline>'')))"
  using assms
  by (auto simp: sh_gitignore_def test_f_def is_file_def file_text_def append_to_def redirect_to_def
      split: if_splits option.splits node.splits)

lemma init_completed_cases:
  assumes "init e args fs = (Completed, fs', out)"
  obtains fs1 o1 fs2 o2 o3 where
    "init_priors_dir (cwd e) fs = (Completed, fs1, o1)"
    "init_skill e (js ''--global'' \<in> set args) fs1 = (Completed, fs2, o2)"
    "init_bootstrap e fs2 = (Completed, fs', o3)"
  using assms by (cases rule: init_cases) simp_all

lemma init_local_result:
  assumes wf: "wf_fs fs" and run: "init e [] fs = (Completed, fs', out)"
  shows "fs' (cwd e @ [js ''.claude'', js ''priors'']) =
           (if fs (cwd e @ [js ''.claude'', js ''priors'']) = None then Some Dir
            else fs (cwd e @ [js ''.claude'', js ''priors'']))"
    and "fs' (cwd e @ [js ''.claude'', js ''priors'', js ''.gitkeep'']) =
           (if fs (cwd e @ [js ''.claude'', js ''priors'']) = None then Some (File [])
            else fs (cwd e @ [js ''.claude'', js ''priors'', js ''.gitkeep'']))"
    and "\<exists>bundled. readAsset fs (SKILL_SRC e) (SKILL_SRC_ALT e) = Inr bundled \<and>
           fs' (cwd e @ [js ''.claude'', js ''skills'', js ''knowledge-extraction'', js ''SKILL.md''])
             = Some (File bundled)"
    and "\<exists>b. readAsset fs (BOOTSTRAP_SRC e) (BOOTSTRAP_SRC_ALT e) = Inr b \<and>
           fs' (cwd e @ [instructionFile_of (cwd e) fs]) =
             Some (File
               (case fs (cwd e @ [instructionFile_of (cwd e) fs]) of
                  Some (File c) \<Rightarrow>
                    if str_includes c PRIORS_MARKER then c
                    else trimEnd c @ js ''\<newline>\<newline>'' @ trim b @ js ''\<newline>''
                | Some Dir \<Rightarrow> trim b @ js ''\<newline>''
                | None \<Rightarrow> trim b @ js ''\<newline>''))"
    and "fs (cwd e @ [instructionFile_of (cwd e) fs]) \<noteq> Some Dir"
    and "fs' (cwd e @ [js ''.gitignore'']) = fs (cwd e @ [js ''.gitignore''])"
proof -
  from run obtain fs1 o1 fs2 o2 o3 where
    step3: "init_priors_dir (cwd e) fs = (Completed, fs1, o1)"
      "init_skill e (js ''--global'' \<in> set []) fs1 = (Completed, fs2, o2)"
      "init_bootstrap e fs2 = (Completed, fs', o3)"
    by (rule init_completed_cases)
  let ?wd = "cwd e"
  let ?pd = "?wd @ [js ''.claude'', js ''priors'']"
  let ?gk = "?wd @ [js ''.claude'', js ''priors'', js ''.gitkeep'']"
  let ?sd = "?wd @ [js ''.claude'', js ''skills'', js ''knowledge-extraction'']"
  let ?dest = "?wd @ [js ''.claude'', js ''skills'', js ''knowledge-extraction'', js ''SKILL.md'']"
  let ?ig = "?wd @ [js ''.gitignore'']"
  have s2: "init_skill e False fs1 = (Completed, fs2, o2)" using step3(2) by simp
  have d: "skillDir_of e False = Some ?sd" by (simp add: skillDir_of_def)
  have top: "fs2 (?wd @ [x]) = fs (?wd @ [x])" if "x \<noteq> js ''.claude''" for x
  proof -
    have "fs1 (?wd @ [x]) = fs (?wd @ [x])"
      by (rule step1_other[OF step3(1)]) (use that in simp)
    moreover have "fs2 (?wd @ [x]) = fs1 (?wd @ [x])"
      by (rule step2_other[OF s2 d]) (use that in simp)
    ultimately show ?thesis by simp
  qed
  have sel: "instructionFile_of ?wd fs2 = instructionFile_of ?wd fs"
    by (simp add: instructionFile_of_def existsSync_def top)
  have selp: "fs2 (?wd @ [instructionFile_of ?wd fs]) = fs (?wd @ [instructionFile_of ?wd fs])"
    using instructionFile_cases[of ?wd fs] by (auto simp: top)
  have neq: "?wd @ [instructionFile_of ?wd fs2] \<noteq> ?pd" "?wd @ [instructionFile_of ?wd fs2] \<noteq> ?gk"
    "?wd @ [instructionFile_of ?wd fs2] \<noteq> ?dest" "?wd @ [instructionFile_of ?wd fs2] \<noteq> ?ig"
    using instructionFile_cases[of ?wd fs2] by auto
  \<comment> \<open>the knowledge directory\<close>
  have pd: "fs' ?pd = (if fs ?pd = None then Some Dir else fs ?pd)"
  proof -
    have "fs' ?pd = fs2 ?pd" by (rule step3_other[OF step3(3)]) (use neq in simp)
    also have "\<dots> = fs1 ?pd" by (rule step2_other[OF s2 d]) simp
    finally show ?thesis using step1_result(1)[OF step3(1) wf] by simp
  qed
  have gk: "fs' ?gk = (if fs ?pd = None then Some (File []) else fs ?gk)"
  proof -
    have "fs' ?gk = fs2 ?gk" by (rule step3_other[OF step3(3)]) (use neq in simp)
    also have "\<dots> = fs1 ?gk" by (rule step2_other[OF s2 d]) simp
    finally show ?thesis using step1_result(2)[OF step3(1) wf] by simp
  qed
  \<comment> \<open>the reference document\<close>
  from step2_post[OF s2] d obtain bundled
    where a1: "readAsset fs1 (SKILL_SRC e) (SKILL_SRC_ALT e) = Inr bundled"
      and d2: "fs2 ?dest = Some (File bundled)" by auto
  have "keeps fs fs1 (SKILL_SRC e)" "keeps fs fs1 (SKILL_SRC_ALT e)"
    unfolding SKILL_SRC_def SKILL_SRC_ALT_def
    by (rule step1_keeps[OF step3(1), of _ "p @ [y]" for p y, simplified]; simp)+
  from readAsset_back[OF this a1] have a: "readAsset fs (SKILL_SRC e) (SKILL_SRC_ALT e) = Inr bundled" .
  have "fs' ?dest = fs2 ?dest" by (rule step3_other[OF step3(3)]) (use neq in simp)
  with d2 have dest: "fs' ?dest = Some (File bundled)" by simp
  \<comment> \<open>the instructions file\<close>
  from step3_result[OF step3(3)] obtain b
    where b2: "readAsset fs2 (BOOTSTRAP_SRC e) (BOOTSTRAP_SRC_ALT e) = Inr b"
      and i2: "fs' (?wd @ [instructionFile_of ?wd fs2]) =
             Some (File
               (case fs2 (?wd @ [instructionFile_of ?wd fs2]) of
                  Some (File c) \<Rightarrow>
                    if str_includes c PRIORS_MARKER then c
                    else trimEnd c @ js ''\<newline>\<newline>'' @ trim b @ js ''\<newline>''
                | Some Dir \<Rightarrow> trim b @ js ''\<newline>''
                | None \<Rightarrow> trim b @ js ''\<newline>''))" by blast
  have "keeps fs fs2 (BOOTSTRAP_SRC e)" "keeps fs fs2 (BOOTSTRAP_SRC_ALT e)"
    unfolding BOOTSTRAP_SRC_def BOOTSTRAP_SRC_ALT_def
    by (rule steps12_keep2[OF step3(1) s2]; simp)+
  from readAsset_back[OF this b2] have b: "readAsset fs (BOOTSTRAP_SRC e) (BOOTSTRAP_SRC_ALT e) = Inr b" .
  have nd: "fs (?wd @ [instructionFile_of ?wd fs]) \<noteq> Some Dir"
    using step3_not_dir[OF step3(3)] sel selp by simp
  have ig: "fs' ?ig = fs ?ig"
  proof -
    have "fs' ?ig = fs2 ?ig" by (rule step3_other[OF step3(3)]) (use neq in simp)
    then show ?thesis by (simp add: top)
  qed
  show "fs' ?pd = (if fs ?pd = None then Some Dir else fs ?pd)" by (rule pd)
  show "fs' ?gk = (if fs ?pd = None then Some (File []) else fs ?gk)" by (rule gk)
  show "\<exists>bundled. readAsset fs (SKILL_SRC e) (SKILL_SRC_ALT e) = Inr bundled \<and>
           fs' ?dest = Some (File bundled)" using a dest by simp
  show "\<exists>b. readAsset fs (BOOTSTRAP_SRC e) (BOOTSTRAP_SRC_ALT e) = Inr b \<and>
           fs' (cwd e @ [instructionFile_of (cwd e) fs]) =
             Some (File
               (case fs (cwd e @ [instructionFile_of (cwd e) fs]) of
                  Some (File c) \<Rightarrow>
                    if str_includes c PRIORS_MARKER then c
                    else trimEnd c @ js ''\<newline>\<newline>'' @ trim b @ js ''\<newline>''
                | Some Dir \<Rightarrow> trim b @ js ''\<newline>''
                | None \<Rightarrow> trim b @ js ''\<newline>''))"
    using b i2 sel selp by simp
  show "fs (?wd @ [instructionFile_of ?wd fs]) \<noteq> Some Dir" by (rule nd)
  show "fs' ?ig = fs ?ig" by (rule ig)
qed

lemma install_sh_result:
  assumes wf: "wf_fs fs" and run: "install_sh e args fs = (Completed, fs', out)"
  shows "fs' (pwd e @ [js ''.claude'', js ''priors'']) = Some Dir"
    and "fs' (pwd e @ [js ''.claude'', js ''priors'', js ''.gitkeep'']) =
           (if fs (pwd e @ [js ''.claude'', js ''priors'']) = Some Dir
            then fs (pwd e @ [js ''.claude'', js ''priors'', js ''.gitkeep'']) else Some (File []))"
    and "\<not> is_file (fs (pwd e @ [js ''.claude'', js ''priors'']))"
    and "fs' (pwd e @ [js ''.claude'', js ''skills'', js ''knowledge-extraction'', js ''SKILL.md'']) =
           (if is_file (fs (pwd e @ [js ''.claude'', js ''skills'', js ''knowledge-extraction'', js ''SKILL.md'']))
            then fs (pwd e @ [js ''.claude'', js ''skills'', js ''knowledge-extraction'', js ''SKILL.md''])
            else Some (File (skill_heredoc e)))"
    and "fs' (pwd e @ [INSTRUCTION_FILE (pwd e) fs]) =
           Some (File
             (case fs (pwd e @ [INSTRUCTION_FILE (pwd e) fs]) of
                Some (File c) \<Rightarrow>
                  if str_includes c PRIORS_MARKER then c
                  else c @ js ''\<newline>'' @ BOOTSTRAP_TEXT @ js ''\<newline>''
              | Some Dir \<Rightarrow> BOOTSTRAP_TEXT @ js ''\<newline>''
              | None \<Rightarrow> BOOTSTRAP_TEXT @ js ''\<newline>''))"
    and "fs (pwd e @ [INSTRUCTION_FILE (pwd e) fs]) \<noteq> Some Dir"
    and "fs' (pwd e @ [js ''.gitignore'']) =
           (if parse_args args False = Some True then fs (pwd e @ [js ''.gitignore''])
            else Some (File
             (case fs (pwd e @ [js ''.gitignore'']) of
                Some (File c) \<Rightarrow>
                  if grep_q GITIGNORE_PATTERN c then c
                  else c @ js ''\<newline># Agent priors (local knowledge)\<newline>.claude/priors/\<newline>''
              | Some Dir \<Rightarrow> js ''# Agent priors (local knowledge)\<newline>.claude/priors/\<newline>''
              | None \<Rightarrow> js ''# Agent priors (local knowledge)\<newline>.claude/priors/\<newline>'')))"
proof -
  from run obtain sh fs1 o1 fs2 o2 fs3 o3 o4 where
    p: "parse_args args False = Some sh" and
    s1: "sh_priors_dir (pwd e) fs = (Completed, fs1, o1)" and
    s2: "sh_skill e fs1 = (Completed, fs2, o2)" and
    s3: "sh_bootstrap e fs2 = (Completed, fs3, o3)" and
    s4: "sh_gitignore e sh fs3 = (Completed, fs', o4)"
    by (rule install_sh_cases)
  let ?wd = "pwd e"
  let ?pd = "?wd @ [js ''.claude'', js ''priors'']"
  let ?gk = "?wd @ [js ''.claude'', js ''priors'', js ''.gitkeep'']"
  let ?dest = "?wd @ [js ''.claude'', js ''skills'', js ''knowledge-extraction'', js ''SKILL.md'']"
  let ?ig = "?wd @ [js ''.gitignore'']"
  have top: "fs2 (?wd @ [x]) = fs (?wd @ [x])" if "x \<noteq> js ''.claude''" for x
  proof -
    have "fs1 (?wd @ [x]) = fs (?wd @ [x])"
      by (rule sh1_other[OF s1]) (use that in simp)
    moreover have "fs2 (?wd @ [x]) = fs1 (?wd @ [x])"
      by (rule sh2_other[OF s2]) (use that in simp)
    ultimately show ?thesis by simp
  qed
  have sel: "INSTRUCTION_FILE ?wd fs2 = INSTRUCTION_FILE ?wd fs"
    by (simp add: INSTRUCTION_FILE_def test_f_def top)
  have selp: "fs2 (?wd @ [INSTRUCTION_FILE ?wd fs]) = fs (?wd @ [INSTRUCTION_FILE ?wd fs])"
    using INSTRUCTION_FILE_cases[of ?wd fs] by (auto simp: top)
  have neq: "?wd @ [INSTRUCTION_FILE ?wd fs2] \<noteq> ?pd" "?wd @ [INSTRUCTION_FILE ?wd fs2] \<noteq> ?gk"
    "?wd @ [INSTRUCTION_FILE ?wd fs2] \<noteq> ?dest" "?wd @ [INSTRUCTION_FILE ?wd fs2] \<noteq> ?ig"
    using INSTRUCTION_FILE_cases[of ?wd fs2] by auto
  have later: "fs' q = fs2 q" if "q \<noteq> ?wd @ [INSTRUCTION_FILE ?wd fs2]" "q \<noteq> ?ig" for q
    using sh4_other[OF s4 that(2)] sh3_other[OF s3 that(1)] by simp
  show "fs' ?pd = Some Dir"
  proof -
    have "fs' ?pd = fs2 ?pd" by (rule later) (use neq in simp_all)
    also have "\<dots> = fs1 ?pd" by (rule sh2_other[OF s2]) simp
    finally show ?thesis using sh1_result(1)[OF s1 wf] by simp
  qed
  show "fs' ?gk = (if fs ?pd = Some Dir then fs ?gk else Some (File []))"
  proof -
    have "fs' ?gk = fs2 ?gk" by (rule later) (use neq in simp_all)
    also have "\<dots> = fs1 ?gk" by (rule sh2_other[OF s2]) simp
    finally show ?thesis using sh1_result(2)[OF s1 wf] by simp
  qed
  show "\<not> is_file (fs ?pd)" by (rule sh1_result(3)[OF s1 wf])
  show "fs' ?dest = (if is_file (fs ?dest) then fs ?dest else Some (File (skill_heredoc e)))"
  proof -
    have "fs' ?dest = fs2 ?dest" by (rule later) (use neq in simp_all)
    moreover have "fs1 ?dest = fs ?dest" by (rule sh1_other[OF s1]) simp
    ultimately show ?thesis using sh2_result[OF s2] by simp
  qed
  have "fs' (?wd @ [INSTRUCTION_FILE ?wd fs2]) = fs3 (?wd @ [INSTRUCTION_FILE ?wd fs2])"
    by (rule sh4_other[OF s4]) (use neq in simp)
  with sh3_result(1)[OF s3] sel selp
  show "fs' (?wd @ [INSTRUCTION_FILE ?wd fs]) =
           Some (File
             (case fs (?wd @ [INSTRUCTION_FILE ?wd fs]) of
                Some (File c) \<Rightarrow>
                  if str_includes c PRIORS_MARKER then c
                  else c @ js ''\<newline>'' @ BOOTSTRAP_TEXT @ js ''\<newline>''
              | Some Dir \<Rightarrow> BOOTSTRAP_TEXT @ js ''\<newline>''
              | None \<Rightarrow> BOOTSTRAP_TEXT @ js ''\<newline>''))" by simp
  show "fs (?wd @ [INSTRUCTION_FILE ?wd fs]) \<noteq> Some Dir"
    using sh3_result(2)[OF s3] sel selp by simp
  have "fs3 ?ig = fs2 ?ig" by (rule sh3_other[OF s3]) (use neq in simp)
  then have "fs3 ?ig = fs ?ig" by (simp add: top)
  with sh4_result[OF s4] p
  show "fs' ?ig =
           (if parse_args args False = Some True then fs ?ig
            else Some (File
             (case fs ?ig of
                Some (File c) \<Rightarrow>
                  if grep_q GITIGNORE_PATTERN c then c
                  else c @ js ''\<newline># Agent priors (local knowledge)\<newline>.claude/priors/\<newline>''
              | Some Dir \<Rightarrow> js ''# Agent priors (local knowledge)\<newline>.claude/priors/\<newline>''
              | None \<Rightarrow> js ''# Agent priors (local knowledge)\<newline>.claude/priors/\<newline>'')))"
    by simp
qed

lemma same_selection:
  assumes "fs (wd @ [instructionFile_of wd fs]) \<noteq> Some Dir"
  shows "instructionFile_of wd fs = INSTRUCTION_FILE wd fs"
  using assms
  by (auto simp: instructionFile_of_def INSTRUCTION_FILE_def existsSync_def test_f_def is_file_def
      split: if_splits option.splits node.splits)

subsection \<open>Running the script again\<close>

lemma sh1_settled:
  "fs (wd @ [js ''.claude'', js ''priors'']) = Some Dir \<Longrightarrow>
   sh_priors_dir wd fs = (Completed, fs, [(Stdout, js ''  .claude/priors/ already exists'')])"
  by (simp add: sh_priors_dir_def test_d_def)

lemma sh1_post:
  assumes "sh_priors_dir wd fs = (Completed, fs', out)"
  shows "fs' (wd @ [js ''.claude'', js ''priors'']) = Some Dir"
proof (cases "test_d fs (wd @ [js ''.claude'', js ''priors''])")
  case True
  with assms show ?thesis by (auto simp: sh_priors_dir_def test_d_def split: option.splits node.splits)
next
  case False
  with assms obtain fs1 where mk: "mkdir_p fs (wd @ [js ''.claude'', js ''priors'']) = Some fs1"
    and t: "touch fs1 (wd @ [js ''.claude'', js ''priors'', js ''.gitkeep'']) = Some fs'"
    by (auto simp: sh_priors_dir_def split: option.splits)
  from touch_other[OF t, of "wd @ [js ''.claude'', js ''priors'']"] mkdir_p_target[OF mk]
  show ?thesis by simp
qed

lemma sh1_fail:
  "sh_priors_dir wd fs = (r, fs', out) \<Longrightarrow> r \<noteq> Completed \<Longrightarrow> fs' = fs"
  by (auto simp: sh_priors_dir_def touch_def mkdir_p_Some_iff butlast_append
      split: if_splits option.splits)

lemma mkdir_p_settled: "(\<And>q. prefix q p \<Longrightarrow> fs q = Some Dir) \<Longrightarrow> mkdir_p fs p = Some fs"
  unfolding mkdir_p_Some_iff by (auto simp: is_file_def)

lemma sh2_settled:
  assumes "\<And>q. prefix q (pwd e @ [js ''.claude'', js ''skills'', js ''knowledge-extraction'']) \<Longrightarrow> fs q = Some Dir"
    and "is_file (fs (pwd e @ [js ''.claude'', js ''skills'', js ''knowledge-extraction'', js ''SKILL.md'']))"
  shows "sh_skill e fs = (Completed, fs, [(Stdout, js ''  SKILL.md already exists'')])"
  using mkdir_p_settled[of "pwd e @ [js ''.claude'', js ''skills'', js ''knowledge-extraction'']" fs] assms
  by (simp add: sh_skill_def test_f_def)

lemma sh2_post:
  assumes "sh_skill e fs = (Completed, fs', out)"
  shows "is_file (fs' (pwd e @ [js ''.claude'', js ''skills'', js ''knowledge-extraction'', js ''SKILL.md'']))"
  using sh2_result[OF assms] by (simp add: is_file_def)

lemma sh2_dirs':
  assumes "sh_skill e fs = (r, fs', out)"
    and "prefix q (pwd e @ [js ''.claude'', js ''skills'', js ''knowledge-extraction''])"
  shows "fs' q = Some Dir \<or> (r \<noteq> Completed \<and> fs' = fs)"
proof -
  let ?d = "pwd e @ [js ''.claude'', js ''skills'', js ''knowledge-extraction'']"
  show ?thesis
  proof (cases "mkdir_p fs ?d")
    case None
    with assms(1) show ?thesis by (auto simp: sh_skill_def)
  next
    case (Some fs1)
    have q: "q \<noteq> ?d @ [js ''SKILL.md'']" using assms(2) by (auto dest: prefix_length_le)
    have "fs1 q = Some Dir" using Some assms(2) by (simp add: mkdir_p_Some_iff)
    moreover have "fs' q = fs1 q"
      using assms(1) Some q
      by (auto simp: sh_skill_def Let_def redirect_to_other split: option.splits if_splits)
    ultimately show ?thesis by simp
  qed
qed

lemma sh2_again:
  assumes "sh_skill e fs = (r, fs', out)"
  shows "\<exists>out'. sh_skill e fs' = (r, fs', out')"
proof -
  let ?d = "pwd e @ [js ''.claude'', js ''skills'', js ''knowledge-extraction'']"
  show ?thesis
  proof (cases "mkdir_p fs ?d")
    case None
    with assms have "fs' = fs" by (auto simp: sh_skill_def)
    with assms show ?thesis by simp
  next
    case (Some fs1)
    have dirs1: "fs1 q = Some Dir" if "prefix q ?d" for q
      using Some that by (simp add: mkdir_p_Some_iff)
    have same: "fs' q = fs1 q" if "q \<noteq> ?d @ [js ''SKILL.md'']" for q
      using assms Some that
      by (auto simp: sh_skill_def Let_def redirect_to_other split: option.splits if_splits)
    have "fs' q = Some Dir" if "prefix q ?d" for q
    proof -
      have "q \<noteq> ?d @ [js ''SKILL.md'']" using that by (auto dest: prefix_length_le)
      with same dirs1[OF that] show ?thesis by simp
    qed
    then have mk': "mkdir_p fs' ?d = Some fs'" by (rule mkdir_p_settled)
    show ?thesis
    proof (cases "r = Completed")
      case True
      with sh2_post assms have "is_file (fs' (?d @ [js ''SKILL.md'']))" by simp
      with mk' True show ?thesis by (simp add: sh_skill_def test_f_def)
    next
      case False
      with assms Some have f: "fs' = fs1" "\<not> test_f fs1 (?d @ [js ''SKILL.md''])"
        "redirect_to fs1 (?d @ [js ''SKILL.md'']) (skill_heredoc e) = None" "r = Exit 1"
        by (auto simp: sh_skill_def Let_def split: option.splits if_splits)
      with mk' show ?thesis by (simp add: sh_skill_def)
    qed
  qed
qed

lemma includes_append: "str_includes b m \<Longrightarrow> str_includes (a @ b @ c) m"
proof -
  assume "str_includes b m"
  then obtain pre post where "b = pre @ m @ post" unfolding str_includes_iff by blast
  then have "a @ b @ c = (a @ pre) @ m @ (post @ c)" by simp
  then show ?thesis unfolding str_includes_iff by blast
qed

lemma BOOTSTRAP_TEXT_marked: "str_includes BOOTSTRAP_TEXT PRIORS_MARKER"
proof -
  have "BOOTSTRAP_TEXT = [10] @ PRIORS_MARKER @ drop 10 BOOTSTRAP_TEXT"
    by (simp add: BOOTSTRAP_TEXT_def PRIORS_MARKER_def)
  then show ?thesis unfolding str_includes_iff by blast
qed

lemma sh3_settled:
  assumes "fs (pwd e @ [INSTRUCTION_FILE (pwd e) fs]) = Some (File c)" and "str_includes c PRIORS_MARKER"
  shows "sh_bootstrap e fs =
    (Completed, fs,
     [(Stdout, js ''  '' @ INSTRUCTION_FILE (pwd e) fs @ js '' already has priors bootstrap'')])"
  using assms by (simp add: sh_bootstrap_def Let_def test_f_def is_file_def grep_q_marker file_text_def)

lemma sh3_fail: "sh_bootstrap e fs = (r, fs', out) \<Longrightarrow> r \<noteq> Completed \<Longrightarrow> fs' = fs"
  by (auto simp: sh_bootstrap_def Let_def split: if_splits option.splits)

lemma sh3_select:
  assumes "sh_bootstrap e fs = (Completed, fs', out)"
  shows "INSTRUCTION_FILE (pwd e) fs' = INSTRUCTION_FILE (pwd e) fs"
proof -
  let ?f = "INSTRUCTION_FILE (pwd e) fs"
  have isf: "is_file (fs' (pwd e @ [?f]))" using sh3_result(1)[OF assms] by (simp add: is_file_def)
  have other: "fs' (pwd e @ [x]) = fs (pwd e @ [x])" if "x \<noteq> ?f" for x
    using sh3_other[OF assms, of "pwd e @ [x]"] that by simp
  show ?thesis
  proof (cases "?f = js ''CLAUDE.md''")
    case True
    with isf show ?thesis by (simp add: INSTRUCTION_FILE_def test_f_def)
  next
    case False
    then have a: "?f = js ''AGENTS.md''" using INSTRUCTION_FILE_cases[of "pwd e" fs] by simp
    then have "\<not> test_f fs (pwd e @ [js ''CLAUDE.md''])"
      by (auto simp: INSTRUCTION_FILE_def split: if_splits)
    moreover have "fs' (pwd e @ [js ''CLAUDE.md'']) = fs (pwd e @ [js ''CLAUDE.md''])"
      by (rule other) (use a in simp)
    ultimately show ?thesis using isf a by (simp add: INSTRUCTION_FILE_def test_f_def)
  qed
qed

lemma sh3_post:
  assumes "sh_bootstrap e fs = (Completed, fs', out)"
  shows "\<exists>c. fs' (pwd e @ [INSTRUCTION_FILE (pwd e) fs']) = Some (File c) \<and> str_includes c PRIORS_MARKER"
proof -
  have a: "str_includes (c @ js ''\<newline>'' @ BOOTSTRAP_TEXT @ js ''\<newline>'') PRIORS_MARKER" for c
    using includes_append[OF BOOTSTRAP_TEXT_marked, of "c @ js ''\<newline>''" "js ''\<newline>''"] by simp
  have b: "str_includes (BOOTSTRAP_TEXT @ js ''\<newline>'') PRIORS_MARKER"
    using includes_append[OF BOOTSTRAP_TEXT_marked, of "[]" "js ''\<newline>''"] by simp
  show ?thesis
    unfolding sh3_select[OF assms] sh3_result(1)[OF assms]
    using a b by (auto split: option.splits node.splits)
qed

lemma lines_of_append: "lines_of (a @ 10 # b) = lines_of a @ lines_of b"
proof (induction a)
  case Nil
  then show ?case by simp
next
  case (Cons c a)
  then show ?case by (cases "lines_of a") auto
qed

lemma grep_q_append: "grep_q pat (a @ 10 # b) \<longleftrightarrow> grep_q pat a \<or> grep_q pat b"
  by (simp add: grep_q_def lines_of_append)

lemma gitignore_entry_matches:
  "grep_q GITIGNORE_PATTERN (js ''# Agent priors (local knowledge)\<newline>.claude/priors/\<newline>'')"
  by (simp add: grep_q_def GITIGNORE_PATTERN_def)

lemma sh4_settled:
  assumes "shared \<or> (\<exists>c. fs (pwd e @ [js ''.gitignore'']) = Some (File c) \<and> grep_q GITIGNORE_PATTERN c)"
  shows "fst (snd (sh_gitignore e shared fs)) = fs"
  using assms by (auto simp: sh_gitignore_def test_f_def is_file_def file_text_def)

lemma sh4_fail: "sh_gitignore e shared fs = (r, fs', out) \<Longrightarrow> r \<noteq> Completed \<Longrightarrow> fs' = fs"
  by (auto simp: sh_gitignore_def split: if_splits option.splits)

lemma sh4_post:
  assumes "sh_gitignore e shared fs = (Completed, fs', out)"
  shows "shared \<or> (\<exists>c. fs' (pwd e @ [js ''.gitignore'']) = Some (File c) \<and> grep_q GITIGNORE_PATTERN c)"
proof (cases shared)
  case True
  then show ?thesis by simp
next
  case False
  have a: "grep_q GITIGNORE_PATTERN
      (c @ js ''\<newline># Agent priors (local knowledge)\<newline>.claude/priors/\<newline>'')" for c
    using grep_q_append[of GITIGNORE_PATTERN c "js ''# Agent priors (local knowledge)\<newline>.claude/priors/\<newline>''"]
      gitignore_entry_matches by simp
  from False assms have "sh_gitignore e False fs = (Completed, fs', out)" by simp
  from sh4_result[OF this] a gitignore_entry_matches show ?thesis
    by (auto split: option.splits node.splits)
qed

lemma install_sh_help: "parse_args args False = None \<Longrightarrow> install_sh e args fs = (Exit 0, fs, sh_usage)"
  by (simp add: install_sh_def)

lemma install_sh_fs:
  assumes "parse_args args False = Some sh"
    and "sh_priors_dir (pwd e) fs = (r1, t1, o1)"
    and "sh_skill e t1 = (r2, t2, o2)"
    and "sh_bootstrap e t2 = (r3, t3, o3)"
    and "sh_gitignore e sh t3 = (r4, t4, o4)"
  shows "fst (snd (install_sh e args fs)) =
    (if r1 \<noteq> Completed then t1 else if r2 \<noteq> Completed then t2
     else if r3 \<noteq> Completed then t3 else t4)"
  using assms by (simp add: install_sh_def and_then_def)

lemma install_sh_twice:
  "fst (snd (install_sh e args (fst (snd (install_sh e args fs))))) = fst (snd (install_sh e args fs))"
proof (cases "parse_args args False")
  case None
  then show ?thesis by (simp add: install_sh_help)
next
  case (Some sh)
  let ?wd = "pwd e"
  let ?pd = "?wd @ [js ''.claude'', js ''priors'']"
  let ?sd = "?wd @ [js ''.claude'', js ''skills'', js ''knowledge-extraction'']"
  let ?dest = "?wd @ [js ''.claude'', js ''skills'', js ''knowledge-extraction'', js ''SKILL.md'']"
  let ?ig = "?wd @ [js ''.gitignore'']"
  obtain r1 t1 o1 where s1: "sh_priors_dir ?wd fs = (r1, t1, o1)" by (metis prod_cases3)
  obtain r2 t2 o2 where s2: "sh_skill e t1 = (r2, t2, o2)" by (metis prod_cases3)
  obtain r3 t3 o3 where s3: "sh_bootstrap e t2 = (r3, t3, o3)" by (metis prod_cases3)
  obtain r4 t4 o4 where s4: "sh_gitignore e sh t3 = (r4, t4, o4)" by (metis prod_cases3)
  note F = install_sh_fs[OF Some s1 s2 s3 s4]
  have st1: "sh_priors_dir ?wd X = (Completed, X, [(Stdout, js ''  .claude/priors/ already exists'')])"
    if "X ?pd = Some Dir" for X
    using sh1_settled[where wd = ?wd and fs = X] that by simp
  have st3: "sh_bootstrap e X =
      (Completed, X, [(Stdout, js ''  '' @ INSTRUCTION_FILE ?wd X @ js '' already has priors bootstrap'')])"
    if "X (?wd @ [INSTRUCTION_FILE ?wd X]) = Some (File c)" "str_includes c PRIORS_MARKER" for X c
    using sh3_settled[where e = e and fs = X and c = c] that by simp
  show ?thesis
  proof (cases "r1 = Completed")
    case False
    with F sh1_fail[OF s1] show ?thesis by simp
  next
    case c1: True
    have pd1: "t1 ?pd = Some Dir" using sh1_post s1 c1 by simp
    have pd2: "t2 ?pd = Some Dir" using sh2_other[OF s2, of ?pd] pd1 by simp
    have n3: "?wd @ [INSTRUCTION_FILE ?wd t2] \<noteq> ?pd" "?wd @ [INSTRUCTION_FILE ?wd t2] \<noteq> ?dest"
      "?wd @ [INSTRUCTION_FILE ?wd t2] \<noteq> ?ig"
      using INSTRUCTION_FILE_cases[of ?wd t2] by auto
    have pd3: "t3 ?pd = Some Dir" using sh3_other[OF s3, of ?pd] pd2 n3 by simp
    have pd4: "t4 ?pd = Some Dir" using sh4_other[OF s4, of ?pd] pd3 by simp
    note b1_2 = st1[of t2, OF pd2] and b1_3 = st1[of t3, OF pd3] and b1_4 = st1[of t4, OF pd4]
    from sh2_again[OF s2] obtain o2' where a2: "sh_skill e t2 = (r2, t2, o2')" by blast
    show ?thesis
    proof (cases "r2 = Completed")
      case False
      obtain x3 y3 z3 where "sh_bootstrap e t2 = (x3, y3, z3)" by (metis prod_cases3)
      moreover obtain x4 y4 z4 where "sh_gitignore e sh y3 = (x4, y4, z4)" by (metis prod_cases3)
      ultimately have "fst (snd (install_sh e args t2)) = t2"
        using install_sh_fs[OF Some b1_2 a2] False by simp
      with F c1 False show ?thesis by simp
    next
      case c2: True
      have dirs2: "t2 q = Some Dir" if "prefix q ?sd" for q
        using sh2_dirs'[OF s2 that] c2 by simp
      have dest2: "is_file (t2 ?dest)" using sh2_post s2 c2 by simp
      have keep3: "t3 q = t2 q" if "q \<noteq> ?wd @ [INSTRUCTION_FILE ?wd t2]" for q
        using sh3_other[OF s3 that] .
      have keep4: "t4 q = t3 q" if "q \<noteq> ?ig" for q
        using sh4_other[OF s4 that] .
      have np: "q \<noteq> ?wd @ [x]" if "prefix q ?sd" "x \<noteq> js ''.claude''" for q x
      proof
        assume "q = ?wd @ [x]"
        with that(1) have "prefix [x] [js ''.claude'', js ''skills'', js ''knowledge-extraction'']"
          by simp
        with that(2) show False by simp
      qed
      have dirs3: "t3 q = Some Dir" if "prefix q ?sd" for q
      proof -
        have "q \<noteq> ?wd @ [js ''CLAUDE.md'']" "q \<noteq> ?wd @ [js ''AGENTS.md'']"
          by (rule np[OF that]; simp)+
        then have "q \<noteq> ?wd @ [INSTRUCTION_FILE ?wd t2]"
          using INSTRUCTION_FILE_cases[of ?wd t2] by auto
        with keep3 dirs2[OF that] show ?thesis by simp
      qed
      have dirs4: "t4 q = Some Dir" if "prefix q ?sd" for q
      proof -
        have "q \<noteq> ?ig" by (rule np[OF that]) simp
        with keep4 dirs3[OF that] show ?thesis by simp
      qed
      have dest3: "is_file (t3 ?dest)" using keep3[of ?dest] n3 dest2 by simp
      have dest4: "is_file (t4 ?dest)" using keep4[of ?dest] dest3 by simp
      show ?thesis
      proof (cases "r3 = Completed")
        case False
        have "t3 = t2" using sh3_fail[OF s3 False] .
        with s3 s4 have "fst (snd (install_sh e args t2)) = t2"
          using install_sh_fs[OF Some b1_2 a2] False c2 by simp
        with F c1 c2 False \<open>t3 = t2\<close> show ?thesis by simp
      next
        case c3: True
        from sh3_post s3 c3 obtain c where m3: "t3 (?wd @ [INSTRUCTION_FILE ?wd t3]) = Some (File c)"
          "str_includes c PRIORS_MARKER" by blast
        have sel4: "INSTRUCTION_FILE ?wd t4 = INSTRUCTION_FILE ?wd t3"
          by (simp add: INSTRUCTION_FILE_def test_f_def keep4)
        have "?wd @ [INSTRUCTION_FILE ?wd t3] \<noteq> ?ig"
          using INSTRUCTION_FILE_cases[of ?wd t3] by auto
        with keep4 m3 sel4 have m4: "t4 (?wd @ [INSTRUCTION_FILE ?wd t4]) = Some (File c)" by simp
        show ?thesis
        proof (cases "r4 = Completed")
          case False
          have "t4 = t3" using sh4_fail[OF s4 False] .
          with s4 have "fst (snd (install_sh e args t3)) = t3"
            using install_sh_fs[OF Some b1_3 sh2_settled[where e = e and fs = t3, OF dirs3 dest3]
                st3[of t3 c, OF m3]] False by simp
          with F c1 c2 c3 False \<open>t4 = t3\<close> show ?thesis by simp
        next
          case c4: True
          obtain x4 y4 z4 where s4': "sh_gitignore e sh t4 = (x4, y4, z4)" by (metis prod_cases3)
          from sh4_post s4 c4 have "fst (snd (sh_gitignore e sh t4)) = t4"
            by (intro sh4_settled) simp
          with s4' have "y4 = t4" by simp
          with s4' have "fst (snd (install_sh e args t4)) = t4"
            using install_sh_fs[OF Some b1_4 sh2_settled[where e = e and fs = t4, OF dirs4 dest4]
                st3[of t4 c, OF m4 m3(2)]] by simp
          with F c1 c2 c3 c4 show ?thesis by simp
        qed
      qed
    qed
  qed
qed

section \<open>Facts about the example states\<close>

lemmas init_eval = init_def and_then_def init_priors_dir_def init_skill_def init_bootstrap_def
  skillDir_of_def instructionFile_of_def readAsset_def resolveAsset_def existsSync_def
  readFileSync_def writeFileSync_def mkdirSync_recursive_def is_file_def
  SKILL_SRC_def SKILL_SRC_ALT_def BOOTSTRAP_SRC_def BOOTSTRAP_SRC_ALT_def PKG_ROOT_def
  example_env_def installed_def with_instructions_def with_skill_def
  PRIORS_MARKER_def VERSION_def path_str_def
  trim_def trimStart_def trimEnd_def is_white_space_def is_line_terminator_def Let_def

lemma wf_installed: "wf_fs installed"
  unfolding wf_fs_def installed_def
  by (auto simp: snoc_eq_iff_butlast split: if_splits)

lemma wf_with_instructions: "wf_fs (with_instructions text)"
  unfolding wf_fs_def with_instructions_def installed_def
  by (auto simp: snoc_eq_iff_butlast split: if_splits)

lemma wf_with_skill: "wf_fs (with_skill text)"
  unfolding wf_fs_def with_skill_def installed_def
  by (auto simp: snoc_eq_iff_butlast split: if_splits)

lemmas status_eval = parse_prior_def match_frontmatter_def match_text_field_def match_entries_def
  match_dot_plus_def match_digits_def is_white_space_def is_line_terminator_def is_digit_def
  trim_def trimStart_def trimEnd_def parseInt_def digits_value_def report_lines_def

text \<open>
  Numbers beyond \<open>2^53\<close>: \<open>2^53 + 1\<close> is read as \<open>2^53\<close>, and a count of \<open>10^24\<close> swallows a
  count of 1 and is printed with an exponent.
\<close>

lemmas num_eval = number_to_string.rep_eq num.rep_eq plus_jsnum.rep_eq zero_jsnum.rep_eq
  parseInt_def digits_value_def to_double_def overflow_def round_nat_def round_to_def bits.simps
  str_of_nat.simps candidates_def hits_at_def hit_def distance_def render_def render_pair_def
  digits_of_def shortest_digits_def

lemma parseInt_rounds:
  "number_to_string (parseInt (js ''9007199254740993'')) = js ''9007199254740992''"
  by (simp add: num_eval)

lemma sum_rounds:
  "number_to_string (parseInt (js ''1000000000000000000000000'') + parseInt (js ''1'')) = js ''1e+24''"
  by (simp add: num_eval)

lemmas sh_eval = install_sh_def and_then_def parse_args.simps sh_priors_dir_def sh_skill_def
  sh_bootstrap_def sh_gitignore_def test_d_def test_f_def mkdir_p_def touch_def redirect_to_def
  append_to_def INSTRUCTION_FILE_def grep_q_marker file_text_def is_file_def sh_example_def
  installed_def with_instructions_def with_skill_def PRIORS_MARKER_def Let_def

section \<open>The two implementations, claim by claim\<close>

subsection \<open>\<open>bin/cli.js\<close>\<close>

lemma init_twice:
  assumes wf: "wf_fs fs"
    and boot: "\<forall>c. fs (BOOTSTRAP_SRC e) = Some (File c) \<or> fs (BOOTSTRAP_SRC_ALT e) = Some (File c)
                 \<longrightarrow> str_includes c PRIORS_MARKER"
  shows "fst (snd (init e args (fst (snd (init e args fs))))) = fst (snd (init e args fs))"
proof -
  let ?g = "(js ''--global'' \<in> set args)"
  let ?pd = "cwd e @ [js ''.claude'', js ''priors'']"
  obtain r F out where run: "init e args fs = (r, F, out)" by (metis prod_cases3)
  have "fst (snd (init e args F)) = F"
    using run
  proof (cases rule: init_cases)
    case (step1 o1)
    with step1_fail[OF step1(1) wf] have "F = fs" by simp
    with run show ?thesis by simp
  next
    case (step2 fs1 o1 o2)
    have wf1: "wf_fs fs1" using step1_wf[OF step2(1) wf] .
    have F: "F = fs1" using step2_fail[OF step2(2) wf1 step2(3)] .
    have "init_priors_dir (cwd e) fs1 = (Completed, fs1, [(Stdout, js ''  .claude/priors/ already exists'')])"
      using step1_stable[OF step1_post[OF step2(1)]] .
    from init_fs_step2[OF this step2(2,3)] F show ?thesis by simp
  next
    case (step3 fs1 o1 fs2 o2 o3)
    have wf1: "wf_fs fs1" using step1_wf[OF step3(1) wf] .
    have wf2: "wf_fs fs2" using step2_wf[OF step3(2) wf1] .
    have wfF: "wf_fs F" using step3_wf[OF step3(3) wf2] .
    have pd1: "fs1 ?pd \<noteq> None" using step1_post[OF step3(1)] by (simp add: existsSync_def)
    then have pd2: "fs2 ?pd \<noteq> None" using step2_mono[OF step3(2)] by blast
    then have pdF: "F ?pd \<noteq> None" using step3_mono[OF step3(3)] by blast
    then have s1: "init_priors_dir (cwd e) F = (Completed, F, [(Stdout, js ''  .claude/priors/ already exists'')])"
      using step1_stable by (simp add: existsSync_def)
    from step2_post[OF step3(2)] obtain d content where d: "skillDir_of e ?g = Some d"
      and asset1: "readAsset fs1 (SKILL_SRC e) (SKILL_SRC_ALT e) = Inr content"
      and d2: "fs2 d \<noteq> None" and dest2: "fs2 (d @ [js ''SKILL.md'']) = Some (File content)"
      by blast
    have dF: "F d \<noteq> None" using d2 step3_mono[OF step3(3)] by blast
    have "keeps fs2 F (d @ [js ''SKILL.md''])"
      by (rule step3_keeps[OF step3(3)]) simp_all
    with dest2 have destF: "F (d @ [js ''SKILL.md'']) = Some (File content)" by (simp add: keeps_def)
    have k: "keeps fs1 F (SKILL_SRC e)" "keeps fs1 F (SKILL_SRC_ALT e)"
      using keeps_trans skill_asset_kept_step2[OF step3(2)] skill_asset_kept_step3[OF step3(3)]
      by blast+
    have assetF: "c = content" if "readAsset F (SKILL_SRC e) (SKILL_SRC_ALT e) = Inr c" for c
      using readAsset_back[OF k that] asset1 by simp
    obtain r2 X x2 where s2: "init_skill e ?g F = (r2, X, x2)" by (metis prod_cases3)
    have X: "X = F" using step2_settled[OF wfF d dF destF assetF s2] by simp
    show ?thesis
    proof (cases "r2 = Completed")
      case False
      from init_fs_step2[OF s1 s2 False] X show ?thesis by simp
    next
      case True
      obtain r3 Y x3 where s3: "init_bootstrap e F = (r3, Y, x3)" by (metis prod_cases3)
      have "Y = F"
      proof (cases "r = Completed")
        case False
        with step3_fail[OF step3(3)] have "F = fs2" by simp
        with s3 step3(3) show ?thesis by simp
      next
        case rc: True
        have kb: "keeps fs fs2 (BOOTSTRAP_SRC e)" "keeps fs fs2 (BOOTSTRAP_SRC_ALT e)"
          unfolding BOOTSTRAP_SRC_def BOOTSTRAP_SRC_ALT_def
          by (rule steps12_keep2[OF step3(1,2)]; simp)+
        have boot2: "str_includes c PRIORS_MARKER"
          if "fs2 (BOOTSTRAP_SRC e) = Some (File c) \<or> fs2 (BOOTSTRAP_SRC_ALT e) = Some (File c)" for c
          using that kb boot by (auto simp: keeps_def)
        from rc step3(3) have c3: "init_bootstrap e fs2 = (Completed, F, o3)" by simp
        from step3_post_marked[OF c3 boot2] obtain content'
          where "F (cwd e @ [instructionFile_of (cwd e) fs2]) = Some (File content')"
            and m: "str_includes content' PRIORS_MARKER" by blast
        then have "F (cwd e @ [instructionFile_of (cwd e) F]) = Some (File content')"
          using step3_select_same[OF c3] by simp
        from step3_settled[OF this m s3] show ?thesis .
      qed
      with s3 X s2 True have "init_bootstrap e F = (r3, F, x3)"
        "init_skill e ?g F = (Completed, F, x2)" by simp_all
      from init_fs_step3[OF s1 this(2,1)] show ?thesis .
    qed
  qed
  with run show ?thesis by simp
qed

lemma cli_updates_skill:
  assumes wf: "wf_fs fs"
    and d: "skillDir_of e ((js ''--global'' \<in> set args)) = Some d"
    and dest: "fs (d @ [js ''SKILL.md'']) = Some (File existing)"
    and asset: "readAsset fs (SKILL_SRC e) (SKILL_SRC_ALT e) = Inr bundled"
    and run: "init e args fs = (Completed, fs', out)"
  shows "fs' (d @ [js ''SKILL.md'']) = Some (File bundled)
       \<and> (\<exists>fs1 o1. init_priors_dir (cwd e) fs = (Completed, fs1, o1)
            \<and> init_skill e ((js ''--global'' \<in> set args)) fs1 =
                (Completed,
                 (if existing = bundled then fs1 else fs1(d @ [js ''SKILL.md''] \<mapsto> File bundled)),
                 [(Stdout, if existing = bundled then js ''  SKILL.md already up to date''
                           else js ''  Updated SKILL.md to v0.1.2'')]))
       \<and> (Stdout, if existing = bundled then js ''  SKILL.md already up to date''
                   else js ''  Updated SKILL.md to v0.1.2'') \<in> set out"
  using run
proof (cases rule: init_cases)
  case (step3 fs1 o1 fs2 o2 o3)
  let ?g = "(js ''--global'' \<in> set args)"
  let ?dest = "d @ [js ''SKILL.md'']"
  let ?msg = "(Stdout, if existing = bundled then js ''  SKILL.md already up to date''
                   else js ''  Updated SKILL.md to v0.1.2'')"
  have wf1: "wf_fs fs1" using step1_wf[OF step3(1) wf] .
  have "keeps fs fs1 ?dest" by (rule step1_keeps[OF step3(1)]) simp
  with dest have dest1: "fs1 ?dest = Some (File existing)" by (simp add: keeps_def)
  then have d1: "fs1 d = Some Dir" using wf1 by (auto simp: wf_fs_def)
  from step2_post[OF step3(2)] obtain c
    where c: "readAsset fs1 (SKILL_SRC e) (SKILL_SRC_ALT e) = Inr c" by blast
  have "keeps fs fs1 (SKILL_SRC e)" "keeps fs fs1 (SKILL_SRC_ALT e)"
    unfolding SKILL_SRC_def SKILL_SRC_ALT_def
    by (rule step1_keeps[OF step3(1), of _ "p @ [y]" for p y, simplified]; simp)+
  from readAsset_back[OF this c] asset have cb: "readAsset fs1 (SKILL_SRC e) (SKILL_SRC_ALT e) = Inr bundled"
    using c by simp
  have s2: "init_skill e ?g fs1 =
      (Completed, (if existing = bundled then fs1 else fs1(?dest \<mapsto> File bundled)), [?msg])"
    using cb d d1 dest1
    by (simp add: init_skill_def existsSync_def readFileSync_def writeFileSync_def VERSION_def)
  with step3(2) have fs2: "fs2 = (if existing = bundled then fs1 else fs1(?dest \<mapsto> File bundled))"
    and o2: "o2 = [?msg]" by simp_all
  from fs2 dest1 have dest2: "fs2 ?dest = Some (File bundled)" by simp
  have "keeps fs2 fs' ?dest" by (rule step3_keeps[OF step3(3)]) simp_all
  with dest2 have "fs' ?dest = Some (File bundled)" by (simp add: keeps_def)
  moreover have "?msg \<in> set out" using step3(4) o2 by simp
  ultimately show ?thesis using step3(1) s2 by blast
qed simp_all


subsection \<open>\<open>install.sh\<close>\<close>



lemma sh2_file_kept:
  assumes "sh_skill e fs = (r, fs', out)"
    and "fs (pwd e @ [js ''.claude'', js ''skills'', js ''knowledge-extraction'', js ''SKILL.md'']) = Some (File c)"
  shows "fs' (pwd e @ [js ''.claude'', js ''skills'', js ''knowledge-extraction'', js ''SKILL.md'']) = Some (File c)"
    and "r = Completed \<longrightarrow> out = [(Stdout, js ''  SKILL.md already exists'')]"
proof -
  let ?d = "pwd e @ [js ''.claude'', js ''skills'', js ''knowledge-extraction'']"
  let ?dest = "pwd e @ [js ''.claude'', js ''skills'', js ''knowledge-extraction'', js ''SKILL.md'']"
  have "fs' ?dest = Some (File c) \<and> (r = Completed \<longrightarrow> out = [(Stdout, js ''  SKILL.md already exists'')])"
  proof (cases "mkdir_p fs ?d")
    case None
    with assms show ?thesis by (auto simp: sh_skill_def)
  next
    case (Some fs1)
    from mkdir_p_file_iff[OF Some, of ?dest c] assms(2) have "fs1 ?dest = Some (File c)" by simp
    with assms(1) Some show ?thesis by (auto simp: sh_skill_def test_f_def is_file_def)
  qed
  then show "fs' ?dest = Some (File c)"
    and "r = Completed \<longrightarrow> out = [(Stdout, js ''  SKILL.md already exists'')]" by simp_all
qed

lemma install_sh_keeps_skill_file:
  assumes "fs (pwd e @ [js ''.claude'', js ''skills'', js ''knowledge-extraction'', js ''SKILL.md'']) = Some (File c)"
  shows "fst (snd (install_sh e args fs))
           (pwd e @ [js ''.claude'', js ''skills'', js ''knowledge-extraction'', js ''SKILL.md'']) = Some (File c)"
proof (cases "parse_args args False")
  case None
  with assms show ?thesis by (simp add: install_sh_help)
next
  case (Some sh)
  let ?wd = "pwd e"
  let ?dest = "?wd @ [js ''.claude'', js ''skills'', js ''knowledge-extraction'', js ''SKILL.md'']"
  obtain r1 t1 o1 where s1: "sh_priors_dir ?wd fs = (r1, t1, o1)" by (metis prod_cases3)
  obtain r2 t2 o2 where s2: "sh_skill e t1 = (r2, t2, o2)" by (metis prod_cases3)
  obtain r3 t3 o3 where s3: "sh_bootstrap e t2 = (r3, t3, o3)" by (metis prod_cases3)
  obtain r4 t4 o4 where s4: "sh_gitignore e sh t3 = (r4, t4, o4)" by (metis prod_cases3)
  have "t1 ?dest = Some (File c)"
    using sh1_file[OF s1, of "js ''SKILL.md''" "?wd @ [js ''.claude'', js ''skills'', js ''knowledge-extraction'']" c]
      assms by simp
  then have d2: "t2 ?dest = Some (File c)" by (rule sh2_file_kept(1)[OF s2])
  have "?dest \<noteq> ?wd @ [INSTRUCTION_FILE ?wd t2]" by simp
  from sh3_other[OF s3 this] d2 have d3: "t3 ?dest = Some (File c)" by simp
  have "?dest \<noteq> ?wd @ [js ''.gitignore'']" by simp
  from sh4_other[OF s4 this] d3 have d4: "t4 ?dest = Some (File c)" by simp
  show ?thesis
    unfolding install_sh_fs[OF Some s1 s2 s3 s4]
    using \<open>t1 ?dest = Some (File c)\<close> d2 d3 d4 by simp
qed

lemma install_sh_skill_message:
  assumes "fs (pwd e @ [js ''.claude'', js ''skills'', js ''knowledge-extraction'', js ''SKILL.md'']) = Some (File c)"
    and run: "install_sh e args fs = (Completed, fs', out)"
  shows "(Stdout, js ''  SKILL.md already exists'') \<in> set out"
proof -
  let ?wd = "pwd e"
  let ?dest = "?wd @ [js ''.claude'', js ''skills'', js ''knowledge-extraction'', js ''SKILL.md'']"
  from run obtain sh fs1 o1 fs2 o2 fs3 o3 o4 where
    p: "parse_args args False = Some sh" and
    s1: "sh_priors_dir (pwd e) fs = (Completed, fs1, o1)" and
    s2: "sh_skill e fs1 = (Completed, fs2, o2)" and
    s3: "sh_bootstrap e fs2 = (Completed, fs3, o3)" and
    s4: "sh_gitignore e sh fs3 = (Completed, fs', o4)"
    by (rule install_sh_cases)
  have "fs1 ?dest = Some (File c)"
    using sh1_file[OF s1, of "js ''SKILL.md''" "?wd @ [js ''.claude'', js ''skills'', js ''knowledge-extraction'']" c]
      assms(1) by simp
  from sh2_file_kept(2)[OF s2 this] have "o2 = [(Stdout, js ''  SKILL.md already exists'')]" by simp
  with run p s1 s2 s3 s4 show ?thesis by (auto simp: install_sh_def and_then_def)
qed



section \<open>What \<open>status\<close> reads from a block and what it prints\<close>





section \<open>The claims\<close>

text \<open>
  Claim C1. Running \<open>init\<close> a second time, with the same arguments, on the filesystem the
  first run left, leaves every path as the first run left it. This holds for every
  well-formed starting state and also when the first run ended early (a missing asset,
  an exception). The text of the bundled bootstrap asset is not part of the sources: the
  theorem takes it as it finds it in the filesystem, and asks that it carries the marker
  \<open>## Priors\<close>, as the copy of it in \<open>install.sh\<close> does. The same holds of \<open>install.sh\<close>,
  for all arguments and from every state.
\<close>

theorem init_idempotent:
  assumes wf: "wf_fs fs"
    and boot: "\<forall>c. fs (BOOTSTRAP_SRC e) = Some (File c) \<or> fs (BOOTSTRAP_SRC_ALT e) = Some (File c)
                 \<longrightarrow> str_includes c PRIORS_MARKER"
  shows "fst (snd (init e args (fst (snd (init e args fs))))) = fst (snd (init e args fs))
       \<and> fst (snd (install_sh se sargs (fst (snd (install_sh se sargs fs)))))
           = fst (snd (install_sh se sargs fs))"
  using init_twice[OF wf boot] install_sh_twice by simp

theorem init_idempotent_witness:
  "wf_fs installed
   \<and> installed (BOOTSTRAP_SRC example_env) = Some (File (js ''\<newline>## Priors\<newline>\<newline>Scan priors.\<newline>''))
   \<and> installed (BOOTSTRAP_SRC_ALT example_env) = None
   \<and> str_includes (js ''\<newline>## Priors\<newline>\<newline>Scan priors.\<newline>'') PRIORS_MARKER
   \<and> fst (snd (init example_env [] installed)) [js ''proj'', js ''CLAUDE.md'']
       = Some (File (js ''## Priors\<newline>\<newline>Scan priors.\<newline>''))
   \<and> fst (snd (init example_env [] (fst (snd (init example_env [] installed)))))
       = fst (snd (init example_env [] installed))
   \<and> fst (snd (install_sh sh_example [] installed)) [js ''proj'', js ''.gitignore'']
       = Some (File (js ''# Agent priors (local knowledge)\<newline>.claude/priors/\<newline>''))
   \<and> fst (snd (install_sh sh_example [] (fst (snd (install_sh sh_example [] installed)))))
       = fst (snd (install_sh sh_example [] installed))"
proof -
  have a: "installed (BOOTSTRAP_SRC example_env) = Some (File (js ''\<newline>## Priors\<newline>\<newline>Scan priors.\<newline>''))"
    and b: "installed (BOOTSTRAP_SRC_ALT example_env) = None"
    by (simp_all add: init_eval)
  have m: "str_includes (js ''\<newline>## Priors\<newline>\<newline>Scan priors.\<newline>'') PRIORS_MARKER"
    by (simp add: PRIORS_MARKER_def)
  have boot: "\<forall>c. installed (BOOTSTRAP_SRC example_env) = Some (File c)
                \<or> installed (BOOTSTRAP_SRC_ALT example_env) = Some (File c)
              \<longrightarrow> str_includes c PRIORS_MARKER"
    using m by (simp add: a b)
  have c: "fst (snd (init example_env [] installed)) [js ''proj'', js ''CLAUDE.md'']
       = Some (File (js ''## Priors\<newline>\<newline>Scan priors.\<newline>''))"
    by (simp add: init_eval)
  have g: "fst (snd (install_sh sh_example [] installed)) [js ''proj'', js ''.gitignore'']
       = Some (File (js ''# Agent priors (local knowledge)\<newline>.claude/priors/\<newline>''))"
    by (simp add: sh_eval)
  note T = init_idempotent[where fs = installed and e = example_env and args = "[]"
      and se = sh_example and sargs = "[]", OF wf_installed boot]
  from T[THEN conjunct1] T[THEN conjunct2] a b m c g wf_installed show ?thesis by simp
qed

text \<open>
  Claim C2, as it stands, fails. Take a project in which an older \<open>SKILL.md\<close> is installed
  and let the script embed the text that the package bundles. Both runs complete, but the
  command-line \<open>init\<close> replaces the older file by the bundled text, while the script
  finds the file and skips it; and only the script has a fourth step: it creates
  \<open>.gitignore\<close>, which \<open>init\<close> never touches.
\<close>

theorem init_and_install_sh_counterexample:
  "readAsset (with_skill (js ''# Skill v1'')) (SKILL_SRC example_env) (SKILL_SRC_ALT example_env)
       = Inr (skill_heredoc sh_example)
   \<and> fst (init example_env [] (with_skill (js ''# Skill v1''))) = Completed
   \<and> fst (install_sh sh_example [] (with_skill (js ''# Skill v1''))) = Completed
   \<and> fst (snd (init example_env [] (with_skill (js ''# Skill v1''))))
        [js ''proj'', js ''.claude'', js ''skills'', js ''knowledge-extraction'', js ''SKILL.md'']
       = Some (File (js ''# Skill v2''))
   \<and> fst (snd (install_sh sh_example [] (with_skill (js ''# Skill v1''))))
        [js ''proj'', js ''.claude'', js ''skills'', js ''knowledge-extraction'', js ''SKILL.md'']
       = Some (File (js ''# Skill v1''))
   \<and> fst (snd (init example_env [] (with_skill (js ''# Skill v1'')))) [js ''proj'', js ''.gitignore'']
       = None
   \<and> fst (snd (install_sh sh_example [] (with_skill (js ''# Skill v1'')))) [js ''proj'', js ''.gitignore'']
       = Some (File (js ''# Agent priors (local knowledge)\<newline>.claude/priors/\<newline>''))"
proof -
  let ?fs = "with_skill (js ''# Skill v1'')"
  have a: "readAsset ?fs (SKILL_SRC example_env) (SKILL_SRC_ALT example_env) = Inr (skill_heredoc sh_example)"
    by (simp add: init_eval sh_example_def)
  have rn: "fst (init example_env [] ?fs) = Completed" by (simp add: init_eval)
  have rs: "fst (install_sh sh_example [] ?fs) = Completed" by (simp add: sh_eval)
  have dn: "fst (snd (init example_env [] ?fs))
        [js ''proj'', js ''.claude'', js ''skills'', js ''knowledge-extraction'', js ''SKILL.md'']
       = Some (File (js ''# Skill v2''))" by (simp add: init_eval)
  have ds: "fst (snd (install_sh sh_example [] ?fs))
        [js ''proj'', js ''.claude'', js ''skills'', js ''knowledge-extraction'', js ''SKILL.md'']
       = Some (File (js ''# Skill v1''))" by (simp add: sh_eval)
  have gn: "fst (snd (init example_env [] ?fs)) [js ''proj'', js ''.gitignore''] = None"
    by (simp add: init_eval)
  have gs: "fst (snd (install_sh sh_example [] ?fs)) [js ''proj'', js ''.gitignore'']
       = Some (File (js ''# Agent priors (local knowledge)\<newline>.claude/priors/\<newline>''))"
    by (simp add: sh_eval)
  from a rn rs dn ds gn gs show ?thesis by simp
qed

text \<open>
  Claim C2, amended. Let \<open>init\<close> (no flags) and the script (no flags) both run from the same
  well-formed state in the same directory and both complete, the script embedding the text
  that the package bundles. Then both leave \<open>.claude/priors\<close> a directory with the same
  \<open>.gitkeep\<close>. \<open>SKILL.md\<close> holds the bundled text after \<open>init\<close>; after the script it holds what
  it held before if it was a file, and the bundled text otherwise. Both choose the same
  instructions file and leave it as it is when it contains \<open>## Priors\<close>; otherwise \<open>init\<close>
  writes the trimmed bootstrap asset (after the right-trimmed old text and an empty line, if
  there was one), and the script the text it embeds (after the old text and a newline).
  \<open>init\<close> leaves \<open>.gitignore\<close> as it was; the script creates it or appends the exclusion
  unless a line matches \<open>.claude/priors/\<close>.
\<close>

theorem init_and_install_sh_agree:
  assumes wf: "wf_fs fs" and pwd: "pwd se = cwd e"
    and skill: "readAsset fs (SKILL_SRC e) (SKILL_SRC_ALT e) = Inr (skill_heredoc se)"
    and node: "init e [] fs = (Completed, fsN, outN)"
    and shell: "install_sh se [] fs = (Completed, fsS, outS)"
  shows "fsN (cwd e @ [js ''.claude'', js ''priors'']) = Some Dir
       \<and> fsS (cwd e @ [js ''.claude'', js ''priors'']) = Some Dir
       \<and> fsN (cwd e @ [js ''.claude'', js ''priors'', js ''.gitkeep''])
           = fsS (cwd e @ [js ''.claude'', js ''priors'', js ''.gitkeep''])
       \<and> fsN (cwd e @ [js ''.claude'', js ''skills'', js ''knowledge-extraction'', js ''SKILL.md''])
           = Some (File (skill_heredoc se))
       \<and> fsS (cwd e @ [js ''.claude'', js ''skills'', js ''knowledge-extraction'', js ''SKILL.md''])
           = (if is_file (fs (cwd e @ [js ''.claude'', js ''skills'', js ''knowledge-extraction'', js ''SKILL.md'']))
              then fs (cwd e @ [js ''.claude'', js ''skills'', js ''knowledge-extraction'', js ''SKILL.md''])
              else Some (File (skill_heredoc se)))
       \<and> INSTRUCTION_FILE (cwd e) fs = instructionFile_of (cwd e) fs
       \<and> (\<exists>b. readAsset fs (BOOTSTRAP_SRC e) (BOOTSTRAP_SRC_ALT e) = Inr b \<and>
            fsN (cwd e @ [instructionFile_of (cwd e) fs]) =
              Some (File
                (case fs (cwd e @ [instructionFile_of (cwd e) fs]) of
                   Some (File c) \<Rightarrow>
                     if str_includes c PRIORS_MARKER then c
                     else trimEnd c @ js ''\<newline>\<newline>'' @ trim b @ js ''\<newline>''
                 | Some Dir \<Rightarrow> trim b @ js ''\<newline>''
                 | None \<Rightarrow> trim b @ js ''\<newline>'')))
       \<and> fsS (cwd e @ [instructionFile_of (cwd e) fs]) =
            Some (File
              (case fs (cwd e @ [instructionFile_of (cwd e) fs]) of
                 Some (File c) \<Rightarrow>
                   if str_includes c PRIORS_MARKER then c
                   else c @ js ''\<newline>'' @ BOOTSTRAP_TEXT @ js ''\<newline>''
               | Some Dir \<Rightarrow> BOOTSTRAP_TEXT @ js ''\<newline>''
               | None \<Rightarrow> BOOTSTRAP_TEXT @ js ''\<newline>''))
       \<and> fsN (cwd e @ [js ''.gitignore'']) = fs (cwd e @ [js ''.gitignore''])
       \<and> fsS (cwd e @ [js ''.gitignore'']) =
            Some (File
              (case fs (cwd e @ [js ''.gitignore'']) of
                 Some (File c) \<Rightarrow>
                   if grep_q GITIGNORE_PATTERN c then c
                   else c @ js ''\<newline># Agent priors (local knowledge)\<newline>.claude/priors/\<newline>''
               | Some Dir \<Rightarrow> js ''# Agent priors (local knowledge)\<newline>.claude/priors/\<newline>''
               | None \<Rightarrow> js ''# Agent priors (local knowledge)\<newline>.claude/priors/\<newline>''))"
proof -
  let ?pd = "cwd e @ [js ''.claude'', js ''priors'']"
  note N = init_local_result[OF wf node]
  note S = install_sh_result[OF wf shell, unfolded pwd]
  have sel: "INSTRUCTION_FILE (cwd e) fs = instructionFile_of (cwd e) fs"
    using same_selection[where wd = "cwd e" and fs = fs] N(5) by simp
  from S(3) have pd: "fs ?pd = None \<or> fs ?pd = Some Dir"
    by (auto simp: is_file_def split: option.splits node.splits)
  have n1: "fsN ?pd = Some Dir" using N(1) pd by auto
  have gk: "fsN (cwd e @ [js ''.claude'', js ''priors'', js ''.gitkeep''])
           = fsS (cwd e @ [js ''.claude'', js ''priors'', js ''.gitkeep''])"
    using N(2) S(2) pd by auto
  have n2: "fsN (cwd e @ [js ''.claude'', js ''skills'', js ''knowledge-extraction'', js ''SKILL.md''])
           = Some (File (skill_heredoc se))"
    using N(3) skill by auto
  show ?thesis
    apply (intro conjI)
    subgoal by (rule n1)
    subgoal by (rule S(1))
    subgoal by (rule gk)
    subgoal by (rule n2)
    subgoal by (rule S(4))
    subgoal by (rule sel)
    subgoal by (rule N(4))
    subgoal using S(5) unfolding sel .
    subgoal by (rule N(6))
    subgoal using S(7) by simp
    done
qed

theorem init_and_install_sh_agree_witness:
  "wf_fs (with_instructions (js ''# Rules\<newline>## Priors\<newline>Read them.\<newline>''))
   \<and> pwd sh_example = cwd example_env
   \<and> readAsset (with_instructions (js ''# Rules\<newline>## Priors\<newline>Read them.\<newline>''))
        (SKILL_SRC example_env) (SKILL_SRC_ALT example_env) = Inr (skill_heredoc sh_example)
   \<and> fst (init example_env [] (with_instructions (js ''# Rules\<newline>## Priors\<newline>Read them.\<newline>'')))
       = Completed
   \<and> fst (install_sh sh_example [] (with_instructions (js ''# Rules\<newline>## Priors\<newline>Read them.\<newline>'')))
       = Completed
   \<and> fst (snd (init example_env [] (with_instructions (js ''# Rules\<newline>## Priors\<newline>Read them.\<newline>''))))
        [js ''proj'', js ''.claude'', js ''priors'', js ''.gitkeep'']
       = fst (snd (install_sh sh_example [] (with_instructions (js ''# Rules\<newline>## Priors\<newline>Read them.\<newline>''))))
        [js ''proj'', js ''.claude'', js ''priors'', js ''.gitkeep'']
   \<and> fst (snd (init example_env [] (with_instructions (js ''# Rules\<newline>## Priors\<newline>Read them.\<newline>''))))
        [js ''proj'', js ''.claude'', js ''skills'', js ''knowledge-extraction'', js ''SKILL.md'']
       = Some (File (js ''# Skill v2''))
   \<and> fst (snd (install_sh sh_example [] (with_instructions (js ''# Rules\<newline>## Priors\<newline>Read them.\<newline>''))))
        [js ''proj'', js ''.claude'', js ''skills'', js ''knowledge-extraction'', js ''SKILL.md'']
       = Some (File (js ''# Skill v2''))
   \<and> fst (snd (init example_env [] (with_instructions (js ''# Rules\<newline>## Priors\<newline>Read them.\<newline>''))))
        [js ''proj'', js ''CLAUDE.md'']
       = Some (File (js ''# Rules\<newline>## Priors\<newline>Read them.\<newline>''))
   \<and> fst (snd (install_sh sh_example [] (with_instructions (js ''# Rules\<newline>## Priors\<newline>Read them.\<newline>''))))
        [js ''proj'', js ''CLAUDE.md'']
       = Some (File (js ''# Rules\<newline>## Priors\<newline>Read them.\<newline>''))"
proof -
  let ?fs = "with_instructions (js ''# Rules\<newline>## Priors\<newline>Read them.\<newline>'')"
  have p: "pwd sh_example = cwd example_env" by (simp add: sh_example_def example_env_def)
  have a: "readAsset ?fs (SKILL_SRC example_env) (SKILL_SRC_ALT example_env) = Inr (skill_heredoc sh_example)"
    by (simp add: init_eval sh_example_def)
  have rn: "fst (init example_env [] ?fs) = Completed" by (simp add: init_eval)
  have rs: "fst (install_sh sh_example [] ?fs) = Completed" by (simp add: sh_eval)
  have runN: "init example_env [] ?fs =
      (Completed, fst (snd (init example_env [] ?fs)), snd (snd (init example_env [] ?fs)))"
    using rn by (simp add: prod_eq_iff)
  have runS: "install_sh sh_example [] ?fs =
      (Completed, fst (snd (install_sh sh_example [] ?fs)), snd (snd (install_sh sh_example [] ?fs)))"
    using rs by (simp add: prod_eq_iff)
  have c: "cwd example_env = [js ''proj'']" by (simp add: example_env_def)
  have sel: "instructionFile_of [js ''proj''] ?fs = js ''CLAUDE.md''"
    by (simp add: instructionFile_of_def existsSync_def with_instructions_def)
  have fl: "?fs [js ''proj'', js ''CLAUDE.md''] = Some (File (js ''# Rules\<newline>## Priors\<newline>Read them.\<newline>''))"
    by (simp add: with_instructions_def)
  have m: "str_includes (js ''# Rules\<newline>## Priors\<newline>Read them.\<newline>'') PRIORS_MARKER"
    by (simp add: PRIORS_MARKER_def)
  have nf: "\<not> is_file (?fs [js ''proj'', js ''.claude'', js ''skills'', js ''knowledge-extraction'', js ''SKILL.md''])"
    by (simp add: with_instructions_def installed_def is_file_def)
  have h: "skill_heredoc sh_example = js ''# Skill v2''" by (simp add: sh_example_def)
  note T = init_and_install_sh_agree[where fs = ?fs and e = example_env and se = sh_example,
      OF wf_with_instructions p a runN runS, unfolded c]
  note T3 = T[THEN conjunct2, THEN conjunct2, THEN conjunct1]
  note T4 = T[THEN conjunct2, THEN conjunct2, THEN conjunct2, THEN conjunct1]
  note T5 = T[THEN conjunct2, THEN conjunct2, THEN conjunct2, THEN conjunct2, THEN conjunct1]
  note T7 = T[THEN conjunct2, THEN conjunct2, THEN conjunct2, THEN conjunct2, THEN conjunct2,
      THEN conjunct2, THEN conjunct1]
  note T8 = T[THEN conjunct2, THEN conjunct2, THEN conjunct2, THEN conjunct2, THEN conjunct2,
      THEN conjunct2, THEN conjunct2, THEN conjunct1]
  have gk: "fst (snd (init example_env [] ?fs)) [js ''proj'', js ''.claude'', js ''priors'', js ''.gitkeep'']
       = fst (snd (install_sh sh_example [] ?fs)) [js ''proj'', js ''.claude'', js ''priors'', js ''.gitkeep'']"
    using T3 by simp
  have dn: "fst (snd (init example_env [] ?fs))
        [js ''proj'', js ''.claude'', js ''skills'', js ''knowledge-extraction'', js ''SKILL.md'']
       = Some (File (js ''# Skill v2''))"
    using T4 h by simp
  have ds: "fst (snd (install_sh sh_example [] ?fs))
        [js ''proj'', js ''.claude'', js ''skills'', js ''knowledge-extraction'', js ''SKILL.md'']
       = Some (File (js ''# Skill v2''))"
    using T5 h nf by simp
  have fl': "?fs ([js ''proj''] @ [instructionFile_of [js ''proj''] ?fs])
       = Some (File (js ''# Rules\<newline>## Priors\<newline>Read them.\<newline>''))"
    unfolding sel using fl by simp
  from T7 obtain b where "fst (snd (init example_env [] ?fs)) ([js ''proj''] @ [instructionFile_of [js ''proj''] ?fs]) =
      Some (File
        (case ?fs ([js ''proj''] @ [instructionFile_of [js ''proj''] ?fs]) of
           Some (File c) \<Rightarrow>
             if str_includes c PRIORS_MARKER then c
             else trimEnd c @ js ''\<newline>\<newline>'' @ trim b @ js ''\<newline>''
         | Some Dir \<Rightarrow> trim b @ js ''\<newline>''
         | None \<Rightarrow> trim b @ js ''\<newline>''))" by blast
  then have inn: "fst (snd (init example_env [] ?fs)) [js ''proj'', js ''CLAUDE.md'']
       = Some (File (js ''# Rules\<newline>## Priors\<newline>Read them.\<newline>''))"
    unfolding fl' unfolding sel using m by simp
  from T8 have ins: "fst (snd (install_sh sh_example [] ?fs)) [js ''proj'', js ''CLAUDE.md'']
       = Some (File (js ''# Rules\<newline>## Priors\<newline>Read them.\<newline>''))"
    unfolding fl' unfolding sel using m by simp
  from wf_with_instructions[of "js ''# Rules\<newline>## Priors\<newline>Read them.\<newline>''"]
    p a rn rs gk dn ds inn ins
  show ?thesis by simp
qed

text \<open>
  Claim C3, as it stands, fails for \<open>install.sh\<close>: step 2 of the script tests only whether
  \<open>SKILL.md\<close> is a file, and skips it then. An installed file that differs from the text
  the script embeds is left as it is.
\<close>

theorem install_sh_keeps_old_skill:
  "with_skill (js ''# Skill v1'')
      [js ''proj'', js ''.claude'', js ''skills'', js ''knowledge-extraction'', js ''SKILL.md'']
     = Some (File (js ''# Skill v1''))
   \<and> skill_heredoc sh_example = js ''# Skill v2''
   \<and> fst (install_sh sh_example [] (with_skill (js ''# Skill v1''))) = Completed
   \<and> fst (snd (install_sh sh_example [] (with_skill (js ''# Skill v1''))))
      [js ''proj'', js ''.claude'', js ''skills'', js ''knowledge-extraction'', js ''SKILL.md'']
     = Some (File (js ''# Skill v1''))
   \<and> (Stdout, js ''  SKILL.md already exists'')
       \<in> set (snd (snd (install_sh sh_example [] (with_skill (js ''# Skill v1'')))))"
proof -
  let ?fs = "with_skill (js ''# Skill v1'')"
  have a: "?fs [js ''proj'', js ''.claude'', js ''skills'', js ''knowledge-extraction'', js ''SKILL.md'']
     = Some (File (js ''# Skill v1''))" by (simp add: with_skill_def)
  have h: "skill_heredoc sh_example = js ''# Skill v2''" by (simp add: sh_example_def)
  have r: "fst (install_sh sh_example [] ?fs) = Completed" by (simp add: sh_eval)
  have d: "fst (snd (install_sh sh_example [] ?fs))
      [js ''proj'', js ''.claude'', js ''skills'', js ''knowledge-extraction'', js ''SKILL.md'']
     = Some (File (js ''# Skill v1''))" by (simp add: sh_eval)
  have m: "(Stdout, js ''  SKILL.md already exists'') \<in> set (snd (snd (install_sh sh_example [] ?fs)))"
    by (simp add: sh_eval)
  from a h r d m show ?thesis by simp
qed

text \<open>
  Claim C3, amended. \<open>init\<close> of \<open>bin/cli.js\<close>: where \<open>SKILL.md\<close> is already installed as a
  file and \<open>init\<close> completes, the file holds the bundled text afterwards. If it held the
  bundled text before, step 2 returns the filesystem it was given (it writes nothing) and
  reports \<open>SKILL.md already up to date\<close>; otherwise step 2 writes that one file and reports
  \<open>Updated SKILL.md to v0.1.2\<close>. \<open>install.sh\<close>: a \<open>SKILL.md\<close> that is a file holds the same
  text after every run, and a run that completes reports \<open>SKILL.md already exists\<close>.
\<close>

theorem init_updates_skill_install_sh_keeps:
  "(wf_fs fs
      \<and> skillDir_of e ((js ''--global'' \<in> set args)) = Some d
      \<and> fs (d @ [js ''SKILL.md'']) = Some (File existing)
      \<and> readAsset fs (SKILL_SRC e) (SKILL_SRC_ALT e) = Inr bundled
      \<and> init e args fs = (Completed, fs', out)
    \<longrightarrow> fs' (d @ [js ''SKILL.md'']) = Some (File bundled)
       \<and> (\<exists>fs1 o1. init_priors_dir (cwd e) fs = (Completed, fs1, o1)
            \<and> init_skill e ((js ''--global'' \<in> set args)) fs1 =
                (Completed,
                 (if existing = bundled then fs1 else fs1(d @ [js ''SKILL.md''] \<mapsto> File bundled)),
                 [(Stdout, if existing = bundled then js ''  SKILL.md already up to date''
                           else js ''  Updated SKILL.md to v0.1.2'')]))
       \<and> (Stdout, if existing = bundled then js ''  SKILL.md already up to date''
                   else js ''  Updated SKILL.md to v0.1.2'') \<in> set out)
   \<and> (fs (pwd se @ [js ''.claude'', js ''skills'', js ''knowledge-extraction'', js ''SKILL.md''])
         = Some (File old)
    \<longrightarrow> fst (snd (install_sh se sargs fs))
           (pwd se @ [js ''.claude'', js ''skills'', js ''knowledge-extraction'', js ''SKILL.md''])
         = Some (File old)
       \<and> (fst (install_sh se sargs fs) = Completed
           \<longrightarrow> (Stdout, js ''  SKILL.md already exists'') \<in> set (snd (snd (install_sh se sargs fs)))))"
proof (intro conjI impI)
  assume "wf_fs fs
      \<and> skillDir_of e ((js ''--global'' \<in> set args)) = Some d
      \<and> fs (d @ [js ''SKILL.md'']) = Some (File existing)
      \<and> readAsset fs (SKILL_SRC e) (SKILL_SRC_ALT e) = Inr bundled
      \<and> init e args fs = (Completed, fs', out)"
  then have h: "wf_fs fs" "skillDir_of e ((js ''--global'' \<in> set args)) = Some d"
    "fs (d @ [js ''SKILL.md'']) = Some (File existing)"
    "readAsset fs (SKILL_SRC e) (SKILL_SRC_ALT e) = Inr bundled"
    "init e args fs = (Completed, fs', out)" by simp_all
  note N = cli_updates_skill[where fs = fs and e = e and d = d, OF h]
  show "fs' (d @ [js ''SKILL.md'']) = Some (File bundled)" using N by simp
  show "\<exists>fs1 o1. init_priors_dir (cwd e) fs = (Completed, fs1, o1)
            \<and> init_skill e ((js ''--global'' \<in> set args)) fs1 =
                (Completed,
                 (if existing = bundled then fs1 else fs1(d @ [js ''SKILL.md''] \<mapsto> File bundled)),
                 [(Stdout, if existing = bundled then js ''  SKILL.md already up to date''
                           else js ''  Updated SKILL.md to v0.1.2'')])"
    using N[THEN conjunct2, THEN conjunct1] .
  show "(Stdout, if existing = bundled then js ''  SKILL.md already up to date''
                   else js ''  Updated SKILL.md to v0.1.2'') \<in> set out"
    using N[THEN conjunct2, THEN conjunct2] .
next
  assume o: "fs (pwd se @ [js ''.claude'', js ''skills'', js ''knowledge-extraction'', js ''SKILL.md''])
         = Some (File old)"
  show "fst (snd (install_sh se sargs fs))
           (pwd se @ [js ''.claude'', js ''skills'', js ''knowledge-extraction'', js ''SKILL.md''])
         = Some (File old)"
    using install_sh_keeps_skill_file[where fs = fs and e = se and c = old] o by simp
  assume c: "fst (install_sh se sargs fs) = Completed"
  then have "install_sh se sargs fs =
      (Completed, fst (snd (install_sh se sargs fs)), snd (snd (install_sh se sargs fs)))"
    by (simp add: prod_eq_iff)
  from install_sh_skill_message[where fs = fs and e = se and c = old, OF o this]
  show "(Stdout, js ''  SKILL.md already exists'') \<in> set (snd (snd (install_sh se sargs fs)))" .
qed

theorem init_updates_skill_install_sh_keeps_witness:
  "wf_fs (with_skill (js ''# Skill v1''))
   \<and> skillDir_of example_env (js ''--global'' \<in> set [])
       = Some [js ''proj'', js ''.claude'', js ''skills'', js ''knowledge-extraction'']
   \<and> with_skill (js ''# Skill v1'')
         [js ''proj'', js ''.claude'', js ''skills'', js ''knowledge-extraction'', js ''SKILL.md'']
       = Some (File (js ''# Skill v1''))
   \<and> readAsset (with_skill (js ''# Skill v1'')) (SKILL_SRC example_env) (SKILL_SRC_ALT example_env)
       = Inr (js ''# Skill v2'')
   \<and> fst (init example_env [] (with_skill (js ''# Skill v1''))) = Completed
   \<and> fst (snd (init example_env [] (with_skill (js ''# Skill v1''))))
         [js ''proj'', js ''.claude'', js ''skills'', js ''knowledge-extraction'', js ''SKILL.md'']
       = Some (File (js ''# Skill v2''))
   \<and> (Stdout, js ''  Updated SKILL.md to v0.1.2'')
       \<in> set (snd (snd (init example_env [] (with_skill (js ''# Skill v1'')))))
   \<and> fst (init example_env [] (with_skill (js ''# Skill v2''))) = Completed
   \<and> (Stdout, js ''  SKILL.md already up to date'')
       \<in> set (snd (snd (init example_env [] (with_skill (js ''# Skill v2'')))))
   \<and> pwd sh_example = [js ''proj'']
   \<and> fst (install_sh sh_example [js ''--shared''] (with_skill (js ''# Skill v1''))) = Completed
   \<and> fst (snd (install_sh sh_example [js ''--shared''] (with_skill (js ''# Skill v1''))))
         [js ''proj'', js ''.claude'', js ''skills'', js ''knowledge-extraction'', js ''SKILL.md'']
       = Some (File (js ''# Skill v1''))
   \<and> (Stdout, js ''  SKILL.md already exists'')
       \<in> set (snd (snd (install_sh sh_example [js ''--shared''] (with_skill (js ''# Skill v1'')))))"
proof -
  let ?d = "[js ''proj'', js ''.claude'', js ''skills'', js ''knowledge-extraction'']"
  let ?v1 = "with_skill (js ''# Skill v1'')"
  let ?v2 = "with_skill (js ''# Skill v2'')"
  have d: "skillDir_of example_env (js ''--global'' \<in> set []) = Some ?d"
    by (simp add: skillDir_of_def example_env_def)
  have f1: "?v1 (?d @ [js ''SKILL.md'']) = Some (File (js ''# Skill v1''))"
    and f2: "?v2 (?d @ [js ''SKILL.md'']) = Some (File (js ''# Skill v2''))"
    by (simp_all add: with_skill_def)
  have a1: "readAsset ?v1 (SKILL_SRC example_env) (SKILL_SRC_ALT example_env) = Inr (js ''# Skill v2'')"
    and a2: "readAsset ?v2 (SKILL_SRC example_env) (SKILL_SRC_ALT example_env) = Inr (js ''# Skill v2'')"
    by (simp_all add: init_eval)
  have r1: "fst (init example_env [] ?v1) = Completed"
    and r2: "fst (init example_env [] ?v2) = Completed"
    by (simp_all add: init_eval)
  have run1: "init example_env [] ?v1 =
      (Completed, fst (snd (init example_env [] ?v1)), snd (snd (init example_env [] ?v1)))"
    using r1 by (simp add: prod_eq_iff)
  have run2: "init example_env [] ?v2 =
      (Completed, fst (snd (init example_env [] ?v2)), snd (snd (init example_env [] ?v2)))"
    using r2 by (simp add: prod_eq_iff)
  have p: "pwd sh_example = [js ''proj'']" by (simp add: sh_example_def)
  have s1: "?v1 (pwd sh_example @ [js ''.claude'', js ''skills'', js ''knowledge-extraction'', js ''SKILL.md''])
      = Some (File (js ''# Skill v1''))"
    unfolding p by (simp add: with_skill_def)
  have rs: "fst (install_sh sh_example [js ''--shared''] ?v1) = Completed" by (simp add: sh_eval)
  note T1 = init_updates_skill_install_sh_keeps[where fs = ?v1 and e = example_env and args = "[]"
      and d = ?d and existing = "js ''# Skill v1''" and bundled = "js ''# Skill v2''"
      and fs' = "fst (snd (init example_env [] ?v1))" and out = "snd (snd (init example_env [] ?v1))"
      and se = sh_example and sargs = "[js ''--shared'']" and old = "js ''# Skill v1''"]
  note T2 = init_updates_skill_install_sh_keeps[where fs = ?v2 and e = example_env and args = "[]"
      and d = ?d and existing = "js ''# Skill v2''" and bundled = "js ''# Skill v2''"
      and fs' = "fst (snd (init example_env [] ?v2))" and out = "snd (snd (init example_env [] ?v2))"
      and se = sh_example and sargs = "[]" and old = "js ''# Skill v2''"]
  note N1 = T1[THEN conjunct1, THEN mp, OF conjI[OF wf_with_skill conjI[OF d conjI[OF f1 conjI[OF a1 run1]]]]]
  note N2 = T2[THEN conjunct1, THEN mp, OF conjI[OF wf_with_skill conjI[OF d conjI[OF f2 conjI[OF a2 run2]]]]]
  note S1 = T1[THEN conjunct2, THEN mp, OF s1]
  have c1: "fst (snd (init example_env [] ?v1)) (?d @ [js ''SKILL.md'']) = Some (File (js ''# Skill v2''))"
    using N1[THEN conjunct1] .
  have o1: "(Stdout, js ''  Updated SKILL.md to v0.1.2'') \<in> set (snd (snd (init example_env [] ?v1)))"
    using N1[THEN conjunct2, THEN conjunct2] by simp
  have o2: "(Stdout, js ''  SKILL.md already up to date'') \<in> set (snd (snd (init example_env [] ?v2)))"
    using N2[THEN conjunct2, THEN conjunct2] by simp
  have c3: "fst (snd (install_sh sh_example [js ''--shared''] ?v1))
        [js ''proj'', js ''.claude'', js ''skills'', js ''knowledge-extraction'', js ''SKILL.md'']
      = Some (File (js ''# Skill v1''))"
    using S1[THEN conjunct1] unfolding p by simp
  have o3: "(Stdout, js ''  SKILL.md already exists'')
      \<in> set (snd (snd (install_sh sh_example [js ''--shared''] ?v1)))"
    using S1[THEN conjunct2, THEN mp, OF rs] .
  from wf_with_skill[of "js ''# Skill v1''"] d f1 a1 r1 c1 o1 r2 o2 p rs c3 o3 show ?thesis by simp
qed




text \<open>
  Claim C5. An instructions file (\<open>CLAUDE.md\<close> or \<open>AGENTS.md\<close> of the working directory)
  whose text contains the marker is the same file after \<open>init\<close>, however the run ends.
\<close>

theorem init_keeps_marked_instructions:
  assumes "f = js ''CLAUDE.md'' \<or> f = js ''AGENTS.md''"
    and "fs (cwd e @ [f]) = Some (File existing)"
    and "str_includes existing PRIORS_MARKER"
    and "init e args fs = (r, fs', out)"
  shows "fs' (cwd e @ [f]) = Some (File existing)"
  using assms(4)
proof (cases rule: init_cases)
  case (step1 o1)
  then show ?thesis using step1_file_iff[OF step1(1), of f] assms(1,2) by auto
next
  case (step2 fs1 o1 o2)
  have "fs1 (cwd e @ [f]) = Some (File existing)"
    using step1_file_iff[OF step2(1), of f] assms(1,2) by auto
  then show ?thesis using step2_file_iff[OF step2(2), of f] assms(1) by auto
next
  case (step3 fs1 o1 fs2 o2 o3)
  have "fs1 (cwd e @ [f]) = Some (File existing)"
    using step1_file_iff[OF step3(1), of f] assms(1,2) by auto
  then have "fs2 (cwd e @ [f]) = Some (File existing)"
    using step2_file_iff[OF step3(2), of f] assms(1) by auto
  then show ?thesis using step3_keeps_marked[OF step3(3) _ assms(3)] by blast
qed

theorem init_keeps_marked_instructions_witness:
  "with_instructions (js ''# Project\<newline>\<newline>## Priors\<newline>old notes\<newline>'') (cwd example_env @ [js ''CLAUDE.md''])
     = Some (File (js ''# Project\<newline>\<newline>## Priors\<newline>old notes\<newline>''))
   \<and> str_includes (js ''# Project\<newline>\<newline>## Priors\<newline>old notes\<newline>'') PRIORS_MARKER
   \<and> fst (snd (init example_env [] (with_instructions (js ''# Project\<newline>\<newline>## Priors\<newline>old notes\<newline>''))))
         (cwd example_env @ [js ''CLAUDE.md''])
       = Some (File (js ''# Project\<newline>\<newline>## Priors\<newline>old notes\<newline>''))"
proof -
  let ?fs = "with_instructions (js ''# Project\<newline>\<newline>## Priors\<newline>old notes\<newline>'')"
  have a: "?fs (cwd example_env @ [js ''CLAUDE.md'']) = Some (File (js ''# Project\<newline>\<newline>## Priors\<newline>old notes\<newline>''))"
    by (simp add: example_env_def with_instructions_def)
  have b: "str_includes (js ''# Project\<newline>\<newline>## Priors\<newline>old notes\<newline>'') PRIORS_MARKER"
    by (simp add: PRIORS_MARKER_def)
  have run: "init example_env [] ?fs =
      (fst (init example_env [] ?fs), fst (snd (init example_env [] ?fs)), snd (snd (init example_env [] ?fs)))"
    by simp
  have "js ''CLAUDE.md'' = js ''CLAUDE.md'' \<or> js ''CLAUDE.md'' = js ''AGENTS.md''" by simp
  from init_keeps_marked_instructions[where fs = "?fs" and e = example_env, OF this a b run] a b
  show ?thesis by blast
qed



text \<open>
  Claim C7, as it stands, fails: the pattern of \<open>status\<close> closes the block at the first
  line that begins with three hyphens, so a file whose second delimiter line is \<open>----\<close>
  has no metadata block in the words of the specification and is still reported with the
  topic of its block.
\<close>

theorem status_defaults_counterexample:
  "\<not> spec_has_metadata_block (js ''---\<newline>topic: plans\<newline>----\<newline>body\<newline>'')
   \<and> topic (parse_prior (js ''notes.md'') (js ''---\<newline>topic: plans\<newline>----\<newline>body\<newline>'')) = js ''plans''
   \<and> topic (parse_prior (js ''notes.md'') (js ''---\<newline>topic: plans\<newline>----\<newline>body\<newline>''))
       \<noteq> spec_name_without_extension (js ''notes.md'')"
  by (simp add: spec_has_metadata_block_def spec_name_without_extension_def status_eval)

text \<open>
  Claim C7, amended. A text that does not start with the line \<open>---\<close> followed, later, by a
  line that begins with \<open>---\<close>, in a file whose name holds \<open>.md\<close> only as its ending: the
  topic is the name without \<open>.md\<close>, the entry count 0, the date printed as \<open>unknown\<close>, and
  the loop of \<open>status\<close> goes on to the next file with the total as it was.
\<close>

theorem status_defaults_without_frontmatter:
  assumes "\<not> (\<exists>fm rest. content = js ''---\<newline>'' @ fm @ js ''\<newline>---'' @ rest)"
    and "\<not> str_includes (stem @ js ''.m'') (js ''.md'')"
  shows "parse_prior (stem @ js ''.md'') content
           = \<lparr>topic = stem, summary = [], entries = 0, lastUpdated = []\<rparr>
       \<and> report_lines (stem @ js ''.md'') (parse_prior (stem @ js ''.md'') content)
           = [(Stdout, js ''  '' @ stem @ js ''.md''),
              (Stdout, js ''    Topic: '' @ stem @ js '' | Entries: 0 | Updated: unknown''),
              (Stdout, [])]
       \<and> (\<forall>fs d t. fs (d @ [stem @ js ''.md'']) = Some (File content) \<longrightarrow>
             status_loop fs d [stem @ js ''.md''] t
               = (Completed, t,
                  report_lines (stem @ js ''.md'') (parse_prior (stem @ js ''.md'') content)))"
proof -
  have none: "match_frontmatter content = None"
    using assms(1) frontmatter_Some[of content] by (cases "match_frontmatter content") auto
  have name: "replace_first (stem @ js ''.md'') (js ''.md'') [] = stem"
  proof (rule replace_first_extension)
    fix pre post assume "stem @ js ''.md'' = pre @ js ''.md'' @ post"
    moreover have "\<not> str_includes (butlast (stem @ js ''.md'')) (js ''.md'')"
      using assms(2) by (simp add: butlast_append)
    ultimately show "post = []" by (rule only_at_end[rotated])
  qed simp
  have p: "parse_prior (stem @ js ''.md'') content
           = \<lparr>topic = stem, summary = [], entries = 0, lastUpdated = []\<rparr>"
    using none name by (simp add: parse_prior_def)
  have r: "report_lines (stem @ js ''.md'') (parse_prior (stem @ js ''.md'') content)
           = [(Stdout, js ''  '' @ stem @ js ''.md''),
              (Stdout, js ''    Topic: '' @ stem @ js '' | Entries: 0 | Updated: unknown''),
              (Stdout, [])]"
    unfolding p by (simp add: report_lines_def)
  have l: "status_loop fs d [stem @ js ''.md''] t
               = (Completed, t, report_lines (stem @ js ''.md'') (parse_prior (stem @ js ''.md'') content))"
    if "fs (d @ [stem @ js ''.md'']) = Some (File content)" for fs d t
    using that p by (simp add: readFileSync_def Let_def)
  from p r l show ?thesis by blast
qed

theorem status_defaults_without_frontmatter_witness:
  "\<not> prefix (js ''---\<newline>'') (js ''# Notes\<newline>---\<newline>'')
   \<and> \<not> str_includes (js ''notes'' @ js ''.m'') (js ''.md'')
   \<and> parse_prior (js ''notes.md'') (js ''# Notes\<newline>---\<newline>'')
       = \<lparr>topic = js ''notes'', summary = [], entries = 0, lastUpdated = []\<rparr>
   \<and> report_lines (js ''notes.md'') (parse_prior (js ''notes.md'') (js ''# Notes\<newline>---\<newline>''))
       = [(Stdout, js ''  notes.md''),
          (Stdout, js ''    Topic: notes | Entries: 0 | Updated: unknown''),
          (Stdout, [])]"
proof -
  have a: "\<not> (\<exists>fm rest. js ''# Notes\<newline>---\<newline>'' = js ''---\<newline>'' @ fm @ js ''\<newline>---'' @ rest)"
    by simp
  have b: "\<not> str_includes (js ''notes'' @ js ''.m'') (js ''.md'')" by simp
  have c: "\<not> prefix (js ''---\<newline>'') (js ''# Notes\<newline>---\<newline>'')" by simp
  from status_defaults_without_frontmatter[OF a b]
  have "parse_prior (js ''notes.md'') (js ''# Notes\<newline>---\<newline>'')
       = \<lparr>topic = js ''notes'', summary = [], entries = 0, lastUpdated = []\<rparr>"
    by simp
  with b c show ?thesis by (simp add: report_lines_def)
qed

text \<open>
  Claim C8. \<open>status\<close> returns the filesystem it was given, in every state and however it
  ends. Where \<open>.claude/priors\<close> does not exist, the command \<open>status\<close> prints that no priors
  directory was found, returns, and the process ends with status 0.
\<close>

theorem status_never_writes:
  "fst (snd (status e fs)) = fs
   \<and> fst (snd (main e (js ''status'' # rest) fs)) = fs
   \<and> (\<not> existsSync fs (cwd e @ [js ''.claude'', js ''priors'']) \<longrightarrow>
        main e (js ''status'' # rest) fs
          = (Completed, fs,
             [(Stdout, js ''No priors directory found. Run `claude-priors init` first.'')])
        \<and> exit_status (fst (main e (js ''status'' # rest) fs)) = 0)"
  by (simp add: status_fs main_def exit_status_def) (simp add: status_def)

theorem status_never_writes_witness:
  "\<not> existsSync installed (cwd example_env @ [js ''.claude'', js ''priors''])
   \<and> main example_env [js ''status''] installed
       = (Completed, installed,
          [(Stdout, js ''No priors directory found. Run `claude-priors init` first.'')])
   \<and> exit_status (fst (main example_env [js ''status''] installed)) = 0
   \<and> fst (snd (status example_env with_priors)) = with_priors"
proof -
  have a: "\<not> existsSync installed (cwd example_env @ [js ''.claude'', js ''priors''])"
    by (simp add: existsSync_def installed_def example_env_def)
  from status_never_writes[of example_env installed "[]"] a
    status_never_writes[of example_env with_priors "[]"]
  show ?thesis by (simp add: exit_status_def)
qed




text \<open>
  Claim C10. The test for the marker is \<open>existing.includes('## Priors')\<close>: the nine
  characters anywhere in the text. Whatever stands before and after them in the
  instructions file that \<open>init\<close> picks, the file is the same after \<open>init\<close>, and a run
  that completes has reported that the file already has the bootstrap. A heading
  \<open>### Priors\<close> is such a text.
\<close>

theorem marker_detection_is_substring_containment:
  assumes "fs (cwd e @ [instructionFile_of (cwd e) fs]) = Some (File (pre @ js ''## Priors'' @ post))"
    and "init e args fs = (r, fs', out)"
  shows "fs' (cwd e @ [instructionFile_of (cwd e) fs]) = Some (File (pre @ js ''## Priors'' @ post))
       \<and> (r = Completed \<longrightarrow>
            (Stdout, js ''  '' @ instructionFile_of (cwd e) fs @ js '' already has priors bootstrap'')
              \<in> set out)"
proof -
  let ?f = "instructionFile_of (cwd e) fs"
  let ?c = "pre @ js ''## Priors'' @ post"
  have m: "str_includes ?c PRIORS_MARKER"
    unfolding str_includes_iff PRIORS_MARKER_def by blast
  have fx: "?f \<noteq> js ''.gitkeep''" "?f \<noteq> js ''SKILL.md''"
    using instructionFile_cases[of "cwd e" fs] by auto
  from assms(2) show ?thesis
  proof (cases rule: init_cases)
    case (step1 o1)
    then show ?thesis using step1_file_iff[OF step1(1) fx(1)] assms(1) by auto
  next
    case (step2 fs1 o1 o2)
    have "keeps fs fs' (cwd e @ [?f])" using steps12_keep[OF step2(1,2) fx] .
    with assms(1) step2(3) show ?thesis by (simp add: keeps_def)
  next
    case (step3 fs1 o1 fs2 o2 o3)
    have k: "keeps fs fs2 (cwd e @ [?f])" using steps12_keep[OF step3(1,2) fx] .
    with assms(1) have f2: "fs2 (cwd e @ [?f]) = Some (File ?c)" by (simp add: keeps_def)
    have unchanged: "fs' (cwd e @ [?f]) = Some (File ?c)"
      using step3_keeps_marked[OF step3(3) f2 m] .
    show ?thesis
    proof (cases "r = Completed")
      case False
      with unchanged show ?thesis by simp
    next
      case True
      with step3(3) have s3: "init_bootstrap e fs2 = (Completed, fs', o3)" by simp
      note sel = select_after_steps12[OF step3(1,2) s3 assms(1)]
      have "o3 = [(Stdout, js ''  '' @ instructionFile_of (cwd e) fs2 @ js '' already has priors bootstrap'')]"
        using step3_marked_out[OF s3 sel(2) m] by simp
      with sel(1) step3(5) unchanged True show ?thesis by simp
    qed
  qed
qed

theorem marker_detection_is_substring_containment_witness:
  "with_instructions (js ''### Priors of art\<newline>body\<newline>'')
     (cwd example_env @ [instructionFile_of (cwd example_env) (with_instructions (js ''### Priors of art\<newline>body\<newline>''))])
     = Some (File (js ''#'' @ js ''## Priors'' @ js '' of art\<newline>body\<newline>''))
   \<and> fst (init example_env [] (with_instructions (js ''### Priors of art\<newline>body\<newline>''))) = Completed
   \<and> fst (snd (init example_env [] (with_instructions (js ''### Priors of art\<newline>body\<newline>''))))
         [js ''proj'', js ''CLAUDE.md'']
       = Some (File (js ''### Priors of art\<newline>body\<newline>''))
   \<and> (Stdout, js ''  CLAUDE.md already has priors bootstrap'')
       \<in> set (snd (snd (init example_env [] (with_instructions (js ''### Priors of art\<newline>body\<newline>'')))))"
proof -
  let ?fs = "with_instructions (js ''### Priors of art\<newline>body\<newline>'')"
  have sel: "instructionFile_of (cwd example_env) ?fs = js ''CLAUDE.md''"
    by (simp add: instructionFile_of_def existsSync_def example_env_def with_instructions_def)
  have a: "?fs (cwd example_env @ [instructionFile_of (cwd example_env) ?fs])
      = Some (File (js ''#'' @ js ''## Priors'' @ js '' of art\<newline>body\<newline>''))"
    unfolding sel by (simp add: example_env_def with_instructions_def)
  have r: "fst (init example_env [] ?fs) = Completed"
    by (simp add: init_eval)
  have run: "init example_env [] ?fs =
      (fst (init example_env [] ?fs), fst (snd (init example_env [] ?fs)), snd (snd (init example_env [] ?fs)))"
    by simp
  from marker_detection_is_substring_containment[where fs = "?fs" and e = example_env
      and pre = "js ''#''" and post = "js '' of art\<newline>body\<newline>''", OF a run] r sel
  have "fst (snd (init example_env [] ?fs)) [js ''proj'', js ''CLAUDE.md'']
       = Some (File (js ''### Priors of art\<newline>body\<newline>''))"
    and "(Stdout, js ''  CLAUDE.md already has priors bootstrap'') \<in> set (snd (snd (init example_env [] ?fs)))"
    by (simp_all add: example_env_def)
  with a r show ?thesis by blast
qed

end
